(* ===== verification/Prelude.thy ===== *)
theory Prelude
  imports Main "HOL-Library.Word"
begin

text \<open>
  Shared ground of the development: the machine integer types, Rust strings as lists of
  Unicode scalar values, the error values (\<open>std::io::Error\<close> and the cause chain of
  \<open>anyhow::Error\<close>), and the state-and-error programs in which code that uses the
  question-mark operator is written, with the computation rules that evaluate them.
\<close>

section \<open>Machine integers and strings\<close>

type_synonym u8 = "8 word"
type_synonym u16 = "16 word"
type_synonym u32 = "32 word"
type_synonym u64 = "64 word"

text \<open>
  A Rust \<open>String\<close> is a sequence of Unicode scalar values, here their code points; its
  byte length is that of its UTF-8 encoding (theory \<open>Rust_Text\<close>).
\<close>

type_synonym rchar = nat
type_synonym rstr = "rchar list"

text \<open>An ASCII literal of the source.\<close>

definition lit :: "string \<Rightarrow> rstr" where
  "lit s = map of_char s"

lemma lit_Nil [simp]: "lit [] = []"
  by (simp add: lit_def)

lemma lit_append: "lit (s @ t) = lit s @ lit t"
  by (simp add: lit_def)

lemma lit_inject [simp]: "lit s = lit t \<longleftrightarrow> s = t"
  unfolding lit_def by (rule inj_map_eq_map) (metis injI of_char_eq_iff)

section \<open>Errors\<close>

text \<open>
  \<open>std::io::ErrorKind\<close>: the kinds the code names, and the rest by number.
\<close>

datatype io_kind =
    UnexpectedEof | BrokenPipe | ConnectionReset | ConnectionAborted
  | NotFound | Unsupported | OtherKind nat

datatype io_error = IoError (kind: io_kind) (detail: rstr)

text \<open>
  An \<open>anyhow::Error\<close> is its chain of causes, outermost first: a message of \<open>bail\<close>
  or of a \<open>context\<close>, an io error, an invalid UTF-8 sequence, or an error value of a
  crate that is not part of the repository.
\<close>

datatype cause = Text rstr | IoCause io_error | Utf8Cause | Foreign rstr

type_synonym error = "cause list"

section \<open>Programs with state and the question mark\<close>

type_synonym ('s, 'a) prog = "'s \<Rightarrow> (error + 'a) \<times> 's"

definition ret :: "'a \<Rightarrow> ('s, 'a) prog" where
  "ret a s = (Inr a, s)"

definition throw :: "error \<Rightarrow> ('s, 'a) prog" where
  "throw e s = (Inl e, s)"

definition bail :: "rstr \<Rightarrow> ('s, 'a) prog" where
  "bail m = throw [Text m]"

definition and_then :: "('s, 'a) prog \<Rightarrow> ('a \<Rightarrow> ('s, 'b) prog) \<Rightarrow> ('s, 'b) prog" where
  "and_then p k s = (case p s of (Inl e, t) \<Rightarrow> (Inl e, t) | (Inr a, t) \<Rightarrow> k a t)"

text \<open>\<open>?\<close> on an io result: the io error becomes the root of a one-element chain.\<close>

definition lift_io :: "('s \<Rightarrow> (io_error + 'a) \<times> 's) \<Rightarrow> ('s, 'a) prog" where
  "lift_io p s = (case p s of (Inl e, t) \<Rightarrow> (Inl [IoCause e], t) | (Inr a, t) \<Rightarrow> (Inr a, t))"

text \<open>\<open>.context(m)\<close> puts a message in front of the chain.\<close>

definition with_context :: "rstr \<Rightarrow> ('s, 'a) prog \<Rightarrow> ('s, 'a) prog" where
  "with_context m p s = (case p s of (Inl e, t) \<Rightarrow> (Inl (Text m # e), t) | (Inr a, t) \<Rightarrow> (Inr a, t))"

text \<open>A handler for the errors of a program.\<close>

definition catch :: "('s, 'a) prog \<Rightarrow> (error \<Rightarrow> ('s, 'a) prog) \<Rightarrow> ('s, 'a) prog" where
  "catch p h s = (case p s of (Inl e, t) \<Rightarrow> h e t | (Inr a, t) \<Rightarrow> (Inr a, t))"

named_theorems prog_simps \<open>computation rules of programs\<close>

lemma ret_run [prog_simps]: "ret a s = (Inr a, s)"
  by (simp add: ret_def)

lemma throw_run [prog_simps]: "throw e s = (Inl e, s)"
  by (simp add: throw_def)

lemma bail_run [prog_simps]: "bail m s = (Inl [Text m], s)"
  by (simp add: bail_def throw_def)

lemma and_then_Inr [prog_simps]: "p s = (Inr a, t) \<Longrightarrow> and_then p k s = k a t"
  by (simp add: and_then_def)

lemma and_then_Inl [prog_simps]: "p s = (Inl e, t) \<Longrightarrow> and_then p k s = (Inl e, t)"
  by (simp add: and_then_def)

lemma lift_io_Inr [prog_simps]: "p s = (Inr a, t) \<Longrightarrow> lift_io p s = (Inr a, t)"
  by (simp add: lift_io_def)

lemma lift_io_Inl [prog_simps]: "p s = (Inl e, t) \<Longrightarrow> lift_io p s = (Inl [IoCause e], t)"
  by (simp add: lift_io_def)

lemma with_context_Inr [prog_simps]: "p s = (Inr a, t) \<Longrightarrow> with_context m p s = (Inr a, t)"
  by (simp add: with_context_def)

lemma with_context_Inl [prog_simps]:
  "p s = (Inl e, t) \<Longrightarrow> with_context m p s = (Inl (Text m # e), t)"
  by (simp add: with_context_def)

lemma catch_Inr [prog_simps]: "p s = (Inr a, t) \<Longrightarrow> catch p h s = (Inr a, t)"
  by (simp add: catch_def)

lemma catch_Inl [prog_simps]: "p s = (Inl e, t) \<Longrightarrow> catch p h s = h e t"
  by (simp add: catch_def)

text \<open>Inversion: what a run that ended says about its parts.\<close>

lemma and_then_cases:
  assumes "and_then p k s = (r, u)"
  obtains (fail) e where "p s = (Inl e, u)" and "r = Inl e"
    | (step) a t where "p s = (Inr a, t)" and "k a t = (r, u)"
  using assms by (auto simp: and_then_def split: prod.splits sum.splits)

lemma and_then_InrE:
  assumes "and_then p k s = (Inr b, u)"
  obtains a t where "p s = (Inr a, t)" and "k a t = (Inr b, u)"
  using assms by (auto simp: and_then_def split: prod.splits sum.splits)

lemma lift_io_eq_Inr: "lift_io p s = (Inr a, t) \<longleftrightarrow> p s = (Inr a, t)"
  by (auto simp: lift_io_def split: prod.splits sum.splits)

lemma with_context_eq_Inr: "with_context m p s = (Inr a, t) \<longleftrightarrow> p s = (Inr a, t)"
  by (auto simp: with_context_def split: prod.splits sum.splits)

lemma snd_lift_io: "snd (lift_io p s) = snd (p s)"
  by (auto simp: lift_io_def split: prod.splits sum.splits)

lemma snd_with_context: "snd (with_context m p s) = snd (p s)"
  by (auto simp: with_context_def split: prod.splits sum.splits)

text \<open>The same question mark on plain results.\<close>

definition sum_then :: "'e + 'a \<Rightarrow> ('a \<Rightarrow> 'e + 'b) \<Rightarrow> 'e + 'b" where
  "sum_then r k = (case r of Inl e \<Rightarrow> Inl e | Inr a \<Rightarrow> k a)"

lemma sum_then_simps [simp]: "sum_then (Inl e) k = Inl e" "sum_then (Inr a) k = k a"
  by (simp_all add: sum_then_def)

lemma sum_then_eq_Inr: "sum_then r k = Inr b \<longleftrightarrow> (\<exists>a. r = Inr a \<and> k a = Inr b)"
  by (cases r) simp_all

section \<open>Counters\<close>

text \<open>\<open>AtomicU64::fetch_add\<close> wraps around: addition of words.\<close>

definition fetch_add :: "u64 \<Rightarrow> u64 \<Rightarrow> u64" where
  "fetch_add c n = c + n"

lemma fetch_add_0 [simp]: "fetch_add c 0 = c"
  by (simp add: fetch_add_def)

lemma fetch_add_assoc: "fetch_add (fetch_add c m) n = fetch_add c (m + n)"
  by (simp add: fetch_add_def)

lemma unat_of_nat_u64: "n < 2 ^ 64 \<Longrightarrow> unat (of_nat n :: u64) = n"
  by (simp add: unsigned_of_nat take_bit_nat_eq_self)

lemma unat_u64_less: "unat (w :: u64) < 2 ^ 64"
  using unsigned_less [of w] by simp

lemma of_nat_u64_inject:
  "m < 2 ^ 64 \<Longrightarrow> n < 2 ^ 64 \<Longrightarrow> (of_nat m :: u64) = of_nat n \<longleftrightarrow> m = n"
  by (metis unat_of_nat_u64)

end
