(* ===== verification/Async_Stream.thy ===== *)
theory Async_Stream
  imports Prelude "HOL-Library.Sublist"
begin

text \<open>
  The byte streams of the async runtime, which is not part of the repository: a record of
  the operations the code calls (\<open>read_exact\<close>, \<open>write_all\<close> and the poll methods of
  \<open>AsyncRead\<close> and \<open>AsyncWrite\<close>), a locale with what their documentation promises, and a
  scripted connection that satisfies it, on which everything evaluates.
\<close>

section \<open>Operations\<close>

datatype 'a poll = Pending | Ready 'a

text \<open>A \<open>ReadBuf\<close>: the filled part and the capacity.\<close>

record read_buf =
  filled :: "u8 list"
  capacity :: nat

record 's stream_ops =
  read_exact :: "nat \<Rightarrow> 's \<Rightarrow> (io_error + u8 list) \<times> 's"
  write_all :: "u8 list \<Rightarrow> 's \<Rightarrow> (io_error + unit) \<times> 's"
  poll_read :: "read_buf \<Rightarrow> 's \<Rightarrow> (io_error + unit) poll \<times> read_buf \<times> 's"
  poll_write :: "u8 list \<Rightarrow> 's \<Rightarrow> (io_error + nat) poll \<times> 's"
  poll_flush :: "'s \<Rightarrow> (io_error + unit) poll \<times> 's"
  poll_shutdown :: "'s \<Rightarrow> (io_error + unit) poll \<times> 's"

section \<open>The contract\<close>

text \<open>
  \<open>unread\<close> is what the peer delivers before its end of stream or error, \<open>sent\<close> is what
  the stream has accepted from the program. \<open>read_exact\<close> fills the buffer exactly or
  fails; a failed \<open>write_all\<close> has accepted some prefix.
\<close>

locale client_stream =
  fixes io :: "'s stream_ops"
    and unread :: "'s \<Rightarrow> u8 list"
    and sent :: "'s \<Rightarrow> u8 list"
  assumes read_exact_ok: "n \<le> length (unread s) \<Longrightarrow>
      \<exists>s'. read_exact io n s = (Inr (take n (unread s)), s') \<and> unread s' = drop n (unread s) \<and> sent s' = sent s"
    and read_exact_short: "length (unread s) < n \<Longrightarrow>
      \<exists>e s'. read_exact io n s = (Inl e, s') \<and> sent s' = sent s"
    and write_all_ok: "write_all io b s = (Inr u, s') \<Longrightarrow> sent s' = sent s @ b \<and> unread s' = unread s"
    and write_all_err: "write_all io b s = (Inl e, s') \<Longrightarrow> \<exists>p. prefix p b \<and> sent s' = sent s @ p"
    and poll_read_ok: "poll_read io rb s = (Ready (Inr u), rb', s') \<Longrightarrow> length (filled rb) \<le> capacity rb \<Longrightarrow>
      \<exists>d. filled rb' = filled rb @ d \<and> length (filled rb') \<le> capacity rb \<and> unread s = d @ unread s'"
    and poll_read_sent: "poll_read io rb s = (r, rb', s') \<Longrightarrow> sent s' = sent s"
    and poll_write_ok: "poll_write io b s = (Ready (Inr n), s') \<Longrightarrow>
      n \<le> length b \<and> sent s' = sent s @ take n b"
    and poll_write_not: "poll_write io b s = (rw, s') \<Longrightarrow> (\<forall>n. rw \<noteq> Ready (Inr n)) \<Longrightarrow> sent s' = sent s"
    and poll_flush_sent: "poll_flush io s = (r, s') \<Longrightarrow> sent s' = sent s"
    and poll_shutdown_sent: "poll_shutdown io s = (r, s') \<Longrightarrow> sent s' = sent s"
begin

lemma read_exact_sent: "sent (snd (read_exact io n s)) = sent s"
  using read_exact_ok [of n s] read_exact_short [of s n] by (cases "n \<le> length (unread s)") auto

lemma read_exact_Inr:
  assumes "read_exact io n s = (Inr bs, s')"
  shows "n \<le> length (unread s)" and "bs = take n (unread s)" and "unread s' = drop n (unread s)"
    and "sent s' = sent s" and "length bs = n"
proof -
  show n: "n \<le> length (unread s)" using assms read_exact_short [of s n] by (fastforce simp: not_le)
  show "bs = take n (unread s)" "unread s' = drop n (unread s)" "sent s' = sent s"
    using read_exact_ok [OF n] assms by auto
  with n show "length bs = n" by simp
qed

lemma write_all_sent_prefix:
  "write_all io b s = (r, s') \<Longrightarrow> \<exists>p. prefix p b \<and> sent s' = sent s @ p"
  by (cases r) (auto dest: write_all_ok write_all_err)

end

text \<open>
  A stream whose peer takes at least \<open>room\<close> more bytes: writes within it succeed.
\<close>

locale roomy_stream = client_stream +
  fixes room :: "'s \<Rightarrow> nat"
  assumes write_all_room: "length b \<le> room s \<Longrightarrow>
      \<exists>s'. write_all io b s = (Inr (), s') \<and> room s' = room s - length b"
    and read_exact_room: "read_exact io n s = (r, s') \<Longrightarrow> room s' = room s"

section \<open>A scripted connection\<close>

text \<open>
  The peer's bytes arrive in chunks; an empty chunk is a poll that finds nothing yet. After
  them the stream ends or fails. The connection accepts \<open>tx_room\<close> bytes, then fails.
\<close>

record conn =
  rx :: "u8 list list"
  rx_end :: "io_error option"
  tx :: "u8 list"
  tx_room :: nat
  tx_err :: io_error

definition conn_unread :: "conn \<Rightarrow> u8 list" where
  "conn_unread c = concat (rx c)"

fun take_exact :: "nat \<Rightarrow> u8 list list \<Rightarrow> (u8 list \<times> u8 list list) option" where
  "take_exact 0 cs = Some ([], cs)"
| "take_exact n [] = None"
| "take_exact n (c # cs) =
     (if n \<le> length c then Some (take n c, drop n c # cs)
      else map_option (\<lambda>(d, r). (c @ d, r)) (take_exact (n - length c) cs))"

definition early_eof :: io_error where
  "early_eof = IoError UnexpectedEof (lit ''early eof'')"

definition conn_read_exact :: "nat \<Rightarrow> conn \<Rightarrow> (io_error + u8 list) \<times> conn" where
  "conn_read_exact n c =
     (case take_exact n (rx c) of
        Some (d, r) \<Rightarrow> (Inr d, c\<lparr>rx := r\<rparr>)
      | None \<Rightarrow> (Inl (case rx_end c of None \<Rightarrow> early_eof | Some e \<Rightarrow> e), c\<lparr>rx := []\<rparr>))"

definition conn_write_all :: "u8 list \<Rightarrow> conn \<Rightarrow> (io_error + unit) \<times> conn" where
  "conn_write_all b c =
     (if length b \<le> tx_room c then (Inr (), c\<lparr>tx := tx c @ b, tx_room := tx_room c - length b\<rparr>)
      else (Inl (tx_err c), c\<lparr>tx := tx c @ take (tx_room c) b, tx_room := 0\<rparr>))"

definition conn_poll_read :: "read_buf \<Rightarrow> conn \<Rightarrow> (io_error + unit) poll \<times> read_buf \<times> conn" where
  "conn_poll_read b c =
     (let room = capacity b - length (filled b)
      in case rx c of
           [] \<Rightarrow> (Ready (case rx_end c of None \<Rightarrow> Inr () | Some e \<Rightarrow> Inl e), b, c)
         | [] # cs \<Rightarrow> (Pending, b, c\<lparr>rx := cs\<rparr>)
         | ch # cs \<Rightarrow> (Ready (Inr ()), b\<lparr>filled := filled b @ take room ch\<rparr>, c\<lparr>rx := drop room ch # cs\<rparr>))"

definition conn_poll_write :: "u8 list \<Rightarrow> conn \<Rightarrow> (io_error + nat) poll \<times> conn" where
  "conn_poll_write b c =
     (if tx_room c = 0 \<and> b \<noteq> [] then (Ready (Inl (tx_err c)), c)
      else let n = min (length b) (tx_room c)
           in (Ready (Inr n), c\<lparr>tx := tx c @ take n b, tx_room := tx_room c - n\<rparr>))"

definition conn_ops :: "conn stream_ops" where
  "conn_ops = \<lparr>read_exact = conn_read_exact, write_all = conn_write_all, poll_read = conn_poll_read,
     poll_write = conn_poll_write, poll_flush = (\<lambda>c. (Ready (Inr ()), c)),
     poll_shutdown = (\<lambda>c. (Ready (Inr ()), c))\<rparr>"

lemmas conn_defs = conn_ops_def conn_read_exact_def conn_write_all_def conn_poll_read_def
  conn_poll_write_def

lemma take_exact_Some:
  "n \<le> length (concat cs) \<Longrightarrow>
   \<exists>r. take_exact n cs = Some (take n (concat cs), r) \<and> concat r = drop n (concat cs)"
proof (induction n cs rule: take_exact.induct)
  case (3 n c cs)
  show ?case
  proof (cases "Suc n \<le> length c")
    case False
    moreover have "Suc n - length c \<le> length (concat cs)" using "3.prems" by simp
    ultimately obtain r where "take_exact (Suc n - length c) cs = Some (take (Suc n - length c) (concat cs), r)"
        "concat r = drop (Suc n - length c) (concat cs)" using "3.IH" by blast
    with False show ?thesis by simp
  qed simp
qed simp_all

lemma take_exact_pos: "0 < n \<Longrightarrow> take_exact n (c # cs) =
     (if n \<le> length c then Some (take n c, drop n c # cs)
      else map_option (\<lambda>(d, r). (c @ d, r)) (take_exact (n - length c) cs))"
  by (cases n) simp_all

lemma take_exact_None: "length (concat cs) < n \<Longrightarrow> take_exact n cs = None"
  by (induction n cs rule: take_exact.induct) auto

interpretation conn: client_stream conn_ops conn_unread tx
proof
  fix n s
  show "\<exists>s'. read_exact conn_ops n s = (Inr (take n (conn_unread s)), s')
      \<and> conn_unread s' = drop n (conn_unread s) \<and> tx s' = tx s" if "n \<le> length (conn_unread s)"
    using take_exact_Some [of n "rx s"] that by (auto simp: conn_defs conn_unread_def)
  show "\<exists>e s'. read_exact conn_ops n s = (Inl e, s') \<and> tx s' = tx s" if "length (conn_unread s) < n"
    using take_exact_None [of "rx s" n] that by (simp add: conn_defs conn_unread_def)
next
  fix b u s b' s'
  show "\<exists>d. filled b' = filled b @ d \<and> length (filled b') \<le> capacity b \<and> conn_unread s = d @ conn_unread s'"
    if "poll_read conn_ops b s = (Ready (Inr u), b', s')" "length (filled b) \<le> capacity b"
    using that by (auto simp: conn_defs conn_unread_def Let_def split: list.splits option.splits)
qed (auto simp: conn_defs conn_unread_def Let_def take_is_prefix split: if_splits list.splits option.splits)

interpretation conn: roomy_stream conn_ops conn_unread tx tx_room
  by unfold_locales (auto simp: conn_defs split: option.splits)

end
