(* ===== verification/Metrics.thy ===== *)
theory Metrics
  imports Prelude
begin

text \<open>
  \<open>metrics.rs\<close>: the process-wide counters. Each is an \<open>AtomicU64\<close>, so the increments
  wrap; \<open>snapshot\<close> reads every counter.
\<close>

record metrics =
  connects_total :: u64
  connects_ok :: u64
  connects_failed :: u64
  bytes_to_upstream :: u64
  bytes_to_client :: u64

definition new_metrics :: metrics where
  "new_metrics = \<lparr>connects_total = 0, connects_ok = 0, connects_failed = 0,
     bytes_to_upstream = 0, bytes_to_client = 0\<rparr>"

record metrics_snapshot =
  snap_connects_total :: u64
  snap_connects_ok :: u64
  snap_connects_failed :: u64
  snap_bytes_to_upstream :: u64
  snap_bytes_to_client :: u64

definition metrics_read :: "metrics \<Rightarrow> metrics_snapshot" where
  "metrics_read m =
     \<lparr>snap_connects_total = connects_total m, snap_connects_ok = connects_ok m,
      snap_connects_failed = connects_failed m, snap_bytes_to_upstream = bytes_to_upstream m,
      snap_bytes_to_client = bytes_to_client m\<rparr>"

text \<open>The increments of the SOCKS server and of the metering adapter.\<close>

definition count_connect :: "metrics \<Rightarrow> metrics" where
  "count_connect m = m\<lparr>connects_total := fetch_add (connects_total m) 1\<rparr>"

definition count_ok :: "metrics \<Rightarrow> metrics" where
  "count_ok m = m\<lparr>connects_ok := fetch_add (connects_ok m) 1\<rparr>"

definition count_failed :: "metrics \<Rightarrow> metrics" where
  "count_failed m = m\<lparr>connects_failed := fetch_add (connects_failed m) 1\<rparr>"

definition count_upstream :: "u64 \<Rightarrow> metrics \<Rightarrow> metrics" where
  "count_upstream n m = m\<lparr>bytes_to_upstream := fetch_add (bytes_to_upstream m) n\<rparr>"

definition count_client :: "u64 \<Rightarrow> metrics \<Rightarrow> metrics" where
  "count_client n m = m\<lparr>bytes_to_client := fetch_add (bytes_to_client m) n\<rparr>"

lemmas metrics_defs = count_connect_def count_ok_def count_failed_def count_upstream_def
  count_client_def fetch_add_def

end
