(* ===== verification/Rust_Text.thy ===== *)
theory Rust_Text
  imports Prelude "HOL-Library.Sublist"
begin

text \<open>
  What the program uses of the standard library's text: UTF-8 validation and encoding
  (\<open>String::from_utf8\<close>, \<open>str::len\<close>), numerals (\<open>Display\<close> of unsigned integers,
  \<open>{:x}\<close>), Unicode white space (\<open>trim\<close>, \<open>trim_end\<close>) and left-aligned padding
  (\<open>{:<w$}\<close>).
\<close>

section \<open>UTF-8\<close>

text \<open>The Unicode scalar values: the code points without the surrogates.\<close>

definition is_scalar :: "rchar \<Rightarrow> bool" where
  "is_scalar c \<longleftrightarrow> c < 0xD800 \<or> (0xE000 \<le> c \<and> c < 0x110000)"

definition utf8_char :: "rchar \<Rightarrow> nat list" where
  "utf8_char c =
     (if c < 0x80 then [c]
      else if c < 0x800 then [0xC0 + c div 64, 0x80 + c mod 64]
      else if c < 0x10000 then [0xE0 + c div 4096, 0x80 + c div 64 mod 64, 0x80 + c mod 64]
      else [0xF0 + c div 262144, 0x80 + c div 4096 mod 64, 0x80 + c div 64 mod 64, 0x80 + c mod 64])"

definition utf8_encode :: "rstr \<Rightarrow> u8 list" where
  "utf8_encode s = map of_nat (concat (map utf8_char s))"

text \<open>\<open>str::len\<close> counts bytes.\<close>

definition str_len :: "rstr \<Rightarrow> nat" where
  "str_len s = length (utf8_encode s)"

definition is_cont :: "nat \<Rightarrow> bool" where
  "is_cont b \<longleftrightarrow> 0x80 \<le> b \<and> b \<le> 0xBF"

text \<open>The second byte a three or four byte sequence may have after its first.\<close>

definition second3 :: "nat \<Rightarrow> nat \<Rightarrow> bool" where
  "second3 a b \<longleftrightarrow>
     (a = 0xE0 \<and> 0xA0 \<le> b \<and> b \<le> 0xBF) \<or> (0xE1 \<le> a \<and> a \<le> 0xEC \<and> is_cont b) \<or>
     (a = 0xED \<and> 0x80 \<le> b \<and> b \<le> 0x9F) \<or> (0xEE \<le> a \<and> a \<le> 0xEF \<and> is_cont b)"

definition second4 :: "nat \<Rightarrow> nat \<Rightarrow> bool" where
  "second4 a b \<longleftrightarrow>
     (a = 0xF0 \<and> 0x90 \<le> b \<and> b \<le> 0xBF) \<or> (0xF1 \<le> a \<and> a \<le> 0xF3 \<and> is_cont b) \<or>
     (a = 0xF4 \<and> 0x80 \<le> b \<and> b \<le> 0x8F)"

fun utf8_decode :: "nat list \<Rightarrow> rstr option" where
  "utf8_decode [] = Some []"
| "utf8_decode (a # r) =
     (if a < 0x80 then map_option (Cons a) (utf8_decode r)
      else if 0xC2 \<le> a \<and> a \<le> 0xDF then
        (case r of
           b # r' \<Rightarrow>
             if is_cont b
             then map_option (Cons ((a - 0xC0) * 64 + (b - 0x80))) (utf8_decode r')
             else None
         | _ \<Rightarrow> None)
      else if 0xE0 \<le> a \<and> a \<le> 0xEF then
        (case r of
           b # c # r' \<Rightarrow>
             if second3 a b \<and> is_cont c
             then map_option (Cons ((a - 0xE0) * 4096 + (b - 0x80) * 64 + (c - 0x80))) (utf8_decode r')
             else None
         | _ \<Rightarrow> None)
      else if 0xF0 \<le> a \<and> a \<le> 0xF4 then
        (case r of
           b # c # d # r' \<Rightarrow>
             if second4 a b \<and> is_cont c \<and> is_cont d
             then map_option (Cons ((a - 0xF0) * 262144 + (b - 0x80) * 4096 + (c - 0x80) * 64 + (d - 0x80)))
                    (utf8_decode r')
             else None
         | _ \<Rightarrow> None)
      else None)"

text \<open>\<open>String::from_utf8\<close>.\<close>

definition from_utf8 :: "u8 list \<Rightarrow> rstr option" where
  "from_utf8 bs = utf8_decode (map unat bs)"

lemma utf8_char_byte: "is_scalar c \<Longrightarrow> b \<in> set (utf8_char c) \<Longrightarrow> b < 256"
  by (auto simp: utf8_char_def is_scalar_def split: if_splits)

lemma div_4096: "(c::nat) div 4096 = c div 64 div 64"
  by (simp flip: div_mult2_eq)

lemma div_262144: "(c::nat) div 262144 = c div 64 div 64 div 64"
  by (simp flip: div_mult2_eq)

lemma second3_digits:
  assumes "q = p * 64 + r" and "r < 64" and "p < 16" and "32 \<le> q" and "q < 0x360 \<or> 0x380 \<le> q"
  shows "second3 (0xE0 + p) (0x80 + r)"
proof -
  have "p = 0 \<Longrightarrow> 32 \<le> r" and "p = 13 \<Longrightarrow> r < 32" using assms by linarith+
  with assms(2,3) show ?thesis by (auto simp: second3_def is_cont_def)
qed

lemma second4_digits:
  assumes "q = p * 64 + r" and "r < 64" and "16 \<le> q" and "q < 0x110"
  shows "second4 (0xF0 + p) (0x80 + r)" and "p \<le> 4"
proof -
  show "p \<le> 4" using assms by linarith
  moreover have "p = 0 \<longrightarrow> 16 \<le> r" and "p = 4 \<longrightarrow> r < 16" using assms by linarith+
  ultimately show "second4 (0xF0 + p) (0x80 + r)"
    using assms(2) unfolding second4_def is_cont_def by linarith
qed

lemma utf8_decode_2:
  "2 \<le> p \<Longrightarrow> p \<le> 31 \<Longrightarrow> q < 64 \<Longrightarrow>
   utf8_decode ((0xC0 + p) # (0x80 + q) # r) = map_option (Cons (p * 64 + q)) (utf8_decode r)"
  by (simp add: is_cont_def)

lemma utf8_decode_3:
  "second3 (0xE0 + p) (0x80 + q) \<Longrightarrow> p < 16 \<Longrightarrow> t < 64 \<Longrightarrow>
   utf8_decode ((0xE0 + p) # (0x80 + q) # (0x80 + t) # r) =
     map_option (Cons (p * 4096 + q * 64 + t)) (utf8_decode r)"
  by (simp add: is_cont_def)

lemma utf8_decode_4:
  "second4 (0xF0 + p) (0x80 + q) \<Longrightarrow> p \<le> 4 \<Longrightarrow> t < 64 \<Longrightarrow> u < 64 \<Longrightarrow>
   utf8_decode ((0xF0 + p) # (0x80 + q) # (0x80 + t) # (0x80 + u) # r) =
     map_option (Cons (p * 262144 + q * 4096 + t * 64 + u)) (utf8_decode r)"
  by (simp add: is_cont_def)

lemma utf8_decode_char:
  assumes "is_scalar c"
  shows "utf8_decode (utf8_char c @ r) = map_option (Cons c) (utf8_decode r)"
proof -
  define q p where "q = c div 64" and "p = q div 64"
  have c: "c = q * 64 + c mod 64" and q: "q = p * 64 + q mod 64"
    unfolding q_def p_def by (simp_all only: div_mult_mod_eq)
  have p: "p = p div 64 * 64 + p mod 64" by (simp only: div_mult_mod_eq)
  have lt: "c mod 64 < 64" "q mod 64 < 64" "p mod 64 < 64" by simp_all
  have ch: "utf8_char c =
     (if c < 0x80 then [c] else if c < 0x800 then [0xC0 + q, 0x80 + c mod 64]
      else if c < 0x10000 then [0xE0 + p, 0x80 + q mod 64, 0x80 + c mod 64]
      else [0xF0 + p div 64, 0x80 + p mod 64, 0x80 + q mod 64, 0x80 + c mod 64])"
    unfolding utf8_char_def div_4096 div_262144 q_def p_def ..
  consider "c < 0x80" | "0x80 \<le> c" "c < 0x800" | "0x800 \<le> c" "c < 0x10000" | "0x10000 \<le> c"
    by linarith
  then show ?thesis
  proof cases
    case 1
    then show ?thesis by (simp add: utf8_char_def)
  next
    case 2
    then have "2 \<le> q" and "q \<le> 31" using c lt by linarith+
    then have "utf8_decode ([0xC0 + q, 0x80 + c mod 64] @ r) = map_option (Cons c) (utf8_decode r)"
      using utf8_decode_2 [of q "c mod 64" r] c lt by (simp only: append.simps)
    with 2 show ?thesis by (simp add: ch)
  next
    case 3
    then have "p < 16" and "32 \<le> q" using c q lt by linarith+
    moreover have "q < 0x360 \<or> 0x380 \<le> q"
      using assms c lt unfolding is_scalar_def by linarith
    ultimately have "second3 (0xE0 + p) (0x80 + q mod 64)"
      using second3_digits [OF q] lt by blast
    moreover have "p * 4096 + q mod 64 * 64 + c mod 64 = c" using c q by linarith
    ultimately have
      "utf8_decode ([0xE0 + p, 0x80 + q mod 64, 0x80 + c mod 64] @ r) = map_option (Cons c) (utf8_decode r)"
      using utf8_decode_3 [of p "q mod 64" "c mod 64" r] lt \<open>p < 16\<close> by (simp only: append.simps)
    with 3 show ?thesis by (simp add: ch)
  next
    case 4
    then have "16 \<le> p" and "p < 0x110"
      using assms c q lt unfolding is_scalar_def by linarith+
    then have "second4 (0xF0 + p div 64) (0x80 + p mod 64)" and "p div 64 \<le> 4"
      using second4_digits [OF p] lt by blast+
    moreover have "p div 64 * 262144 + p mod 64 * 4096 + q mod 64 * 64 + c mod 64 = c"
      using c q p by linarith
    ultimately have
      "utf8_decode ([0xF0 + p div 64, 0x80 + p mod 64, 0x80 + q mod 64, 0x80 + c mod 64] @ r) =
         map_option (Cons c) (utf8_decode r)"
      using utf8_decode_4 [of "p div 64" "p mod 64" "q mod 64" "c mod 64" r] lt
      by (simp only: append.simps)
    with 4 show ?thesis by (simp add: ch)
  qed
qed

lemma utf8_decode_encode_nat:
  "list_all is_scalar s \<Longrightarrow> utf8_decode (concat (map utf8_char s)) = Some s"
  by (induction s) (simp_all add: utf8_decode_char)

lemma from_utf8_encode:
  assumes "list_all is_scalar s"
  shows "from_utf8 (utf8_encode s) = Some s"
proof -
  have "map (unat \<circ> (of_nat :: nat \<Rightarrow> u8)) (concat (map utf8_char s)) = concat (map utf8_char s)"
    using assms
    by (intro map_idI)
      (auto simp: list_all_iff unsigned_of_nat intro!: take_bit_nat_eq_self dest!: utf8_char_byte [rotated])
  with assms show ?thesis
    by (simp add: from_utf8_def utf8_encode_def utf8_decode_encode_nat)
qed

text \<open>Conversely a decoded string encodes to the bytes it came from.\<close>

lemma utf8_char_2:
  "2 \<le> p \<Longrightarrow> p \<le> 31 \<Longrightarrow> q < 64 \<Longrightarrow> utf8_char (p * 64 + q) = [0xC0 + p, 0x80 + q]"
  by (simp add: utf8_char_def)

lemma div_digits_3:
  assumes "q < 64" and "t < 64"
  shows "(p * 4096 + q * 64 + t) div 64 = p * 64 + (q::nat)"
    and "(p * 4096 + q * 64 + t) mod 64 = t"
proof -
  have eq: "p * 4096 + q * 64 + t = t + (p * 64 + q) * 64" by simp
  show "(p * 4096 + q * 64 + t) div 64 = p * 64 + q"
    unfolding eq using assms by (subst div_mult_self1) simp_all
  show "(p * 4096 + q * 64 + t) mod 64 = t"
    unfolding eq using assms by (subst mod_mult_self1) simp
qed

lemma div_digits_4:
  assumes "q < 64" and "t < 64" and "u < 64"
  shows "(p * 262144 + q * 4096 + t * 64 + u) div 64 = p * 4096 + q * 64 + (t::nat)"
    and "(p * 262144 + q * 4096 + t * 64 + u) mod 64 = u"
proof -
  have eq: "p * 262144 + q * 4096 + t * 64 + u = u + (p * 4096 + q * 64 + t) * 64" by simp
  show "(p * 262144 + q * 4096 + t * 64 + u) div 64 = p * 4096 + q * 64 + t"
    unfolding eq using assms by (subst div_mult_self1) simp_all
  show "(p * 262144 + q * 4096 + t * 64 + u) mod 64 = u"
    unfolding eq using assms by (subst mod_mult_self1) simp
qed

lemma utf8_char_3:
  assumes "second3 (0xE0 + p) (0x80 + q)" and "p < 16" and "t < 64"
  shows "utf8_char (p * 4096 + q * 64 + t) = [0xE0 + p, 0x80 + q, 0x80 + t]"
    and "is_scalar (p * 4096 + q * 64 + t)"
proof -
  have q: "q < 64" and lo: "p = 0 \<longrightarrow> 32 \<le> q" and hi: "p = 13 \<longrightarrow> q < 32"
    using assms(1) by (auto simp: second3_def is_cont_def)
  have "0x800 \<le> p * 4096 + q * 64 + t" and "p * 4096 + q * 64 + t < 0x10000"
    using assms(2,3) q lo by linarith+
  then show "utf8_char (p * 4096 + q * 64 + t) = [0xE0 + p, 0x80 + q, 0x80 + t]"
    using q assms(3) by (simp add: utf8_char_def div_4096 div_digits_3)
  have "p \<le> 12 \<or> p = 13 \<or> 14 \<le> p" by linarith
  then show "is_scalar (p * 4096 + q * 64 + t)"
    using q hi assms(2,3) unfolding is_scalar_def by linarith
qed

lemma utf8_char_4:
  assumes "second4 (0xF0 + p) (0x80 + q)" and "p \<le> 4" and "t < 64" and "u < 64"
  shows "utf8_char (p * 262144 + q * 4096 + t * 64 + u) = [0xF0 + p, 0x80 + q, 0x80 + t, 0x80 + u]"
    and "is_scalar (p * 262144 + q * 4096 + t * 64 + u)"
proof -
  have q: "q < 64" and lo: "p = 0 \<longrightarrow> 16 \<le> q" and hi: "p = 4 \<longrightarrow> q < 16"
    using assms(1) by (auto simp: second4_def is_cont_def)
  have "0x10000 \<le> p * 262144 + q * 4096 + t * 64 + u" using assms(2,3) q lo by linarith
  then show "utf8_char (p * 262144 + q * 4096 + t * 64 + u) = [0xF0 + p, 0x80 + q, 0x80 + t, 0x80 + u]"
    using q assms(3,4)
    by (simp add: utf8_char_def div_4096 div_262144 div_digits_3 div_digits_4 del: add_mult_distrib2)
  show "is_scalar (p * 262144 + q * 4096 + t * 64 + u)"
    using q lo hi assms(2,3,4) unfolding is_scalar_def by linarith
qed

lemma is_cont_offset: "is_cont b \<longleftrightarrow> (\<exists>q < 64. b = 0x80 + q)"
  unfolding is_cont_def by (auto intro!: exI [of _ "b - 0x80"])

lemma second3_cont: "second3 a b \<Longrightarrow> is_cont b"
  by (auto simp: second3_def is_cont_def)

lemma second4_cont: "second4 a b \<Longrightarrow> is_cont b"
  by (auto simp: second4_def is_cont_def)

lemma utf8_decode_sound:
  "utf8_decode bs = Some s \<Longrightarrow> concat (map utf8_char s) = bs \<and> list_all is_scalar s"
proof (induction bs arbitrary: s rule: utf8_decode.induct)
  case 1
  then show ?case by simp
next
  case (2 a r)
  consider (one) "a < 0x80" | (two) "0xC2 \<le> a" "a \<le> 0xDF" | (three) "0xE0 \<le> a" "a \<le> 0xEF"
    | (four) "0xF0 \<le> a" "a \<le> 0xF4" | (bad) "\<not> a < 0x80" "\<not> (0xC2 \<le> a \<and> a \<le> 0xDF)"
      "\<not> (0xE0 \<le> a \<and> a \<le> 0xEF)" "\<not> (0xF0 \<le> a \<and> a \<le> 0xF4)"
    by blast
  then show ?case
  proof cases
    case one
    with 2 show ?thesis by (auto simp: utf8_char_def is_scalar_def)
  next
    case two
    with "2.prems" obtain b r' s' where r: "r = b # r'" "is_cont b" "utf8_decode r' = Some s'"
      and s: "s = ((a - 0xC0) * 64 + (b - 0x80)) # s'"
      by (auto split: list.splits if_splits)
    from r two obtain q where "b = 0x80 + q" "q < 64" by (auto simp: is_cont_offset)
    moreover from two obtain p where "a = 0xC0 + p" "2 \<le> p" "p \<le> 31"
      by (intro that [of "a - 0xC0"]) auto
    ultimately show ?thesis
      using "2.IH"(2) [of b r' s'] two r s utf8_char_2 [of p q] by (auto simp: is_scalar_def)
  next
    case three
    with "2.prems" obtain b c r' s' where r: "r = b # c # r'" "second3 a b" "is_cont c"
        "utf8_decode r' = Some s'"
      and s: "s = ((a - 0xE0) * 4096 + (b - 0x80) * 64 + (c - 0x80)) # s'"
      by (auto split: list.splits if_splits)
    from r second3_cont obtain q t where "b = 0x80 + q" "q < 64" "c = 0x80 + t" "t < 64"
      by (meson is_cont_offset)
    moreover from three obtain p where "a = 0xE0 + p" "p < 16"
      by (intro that [of "a - 0xE0"]) auto
    ultimately show ?thesis
      using "2.IH"(3) [of b "c # r'" c r' s'] three r s utf8_char_3 [of p q t] by auto
  next
    case four
    with "2.prems" obtain b c d r' s' where r: "r = b # c # d # r'" "second4 a b" "is_cont c"
        "is_cont d" "utf8_decode r' = Some s'"
      and s: "s = ((a - 0xF0) * 262144 + (b - 0x80) * 4096 + (c - 0x80) * 64 + (d - 0x80)) # s'"
      by (auto split: list.splits if_splits)
    from r second4_cont obtain q t u where "b = 0x80 + q" "q < 64" "c = 0x80 + t" "t < 64"
        "d = 0x80 + u" "u < 64"
      by (meson is_cont_offset)
    moreover from four obtain p where "a = 0xF0 + p" "p \<le> 4"
      by (intro that [of "a - 0xF0"]) auto
    ultimately show ?thesis
      using "2.IH"(4) [of b "c # d # r'" c "d # r'" d r' s'] four r s utf8_char_4 [of p q t u]
      by auto
  next
    case bad
    with "2.prems" show ?thesis by simp
  qed
qed

lemma from_utf8_sound:
  assumes "from_utf8 bs = Some s"
  shows "utf8_encode s = bs" and "list_all is_scalar s"
  using utf8_decode_sound [OF assms [unfolded from_utf8_def]]
  by (simp_all add: utf8_encode_def comp_def)

section \<open>Numerals\<close>

text \<open>Digits as \<open>Display\<close> and \<open>{:x}\<close> write them, and positional notation in a base.\<close>

definition digit_char :: "nat \<Rightarrow> rchar" where
  "digit_char d = (if d < 10 then 48 + d else 87 + d)"

definition char_digit :: "rchar \<Rightarrow> nat" where
  "char_digit c = (if c < 58 then c - 48 else c - 87)"

function radix :: "nat \<Rightarrow> nat \<Rightarrow> rstr" where
  "radix b n = (if b < 2 \<or> n < b then [digit_char n] else radix b (n div b) @ [digit_char (n mod b)])"
  by pat_completeness auto
termination
  by (relation "measure snd") (auto intro: div_less_dividend)

declare radix.simps [simp del]

definition dec :: "nat \<Rightarrow> rstr" where
  "dec n = radix 10 n"

definition hex :: "nat \<Rightarrow> rstr" where
  "hex n = radix 16 n"

text \<open>Reading a numeral back.\<close>

definition numeral_value :: "nat \<Rightarrow> rstr \<Rightarrow> nat" where
  "numeral_value b s = foldl (\<lambda>acc c. b * acc + char_digit c) 0 s"

lemma char_digit_char [simp]: "char_digit (digit_char d) = d"
  by (simp add: char_digit_def digit_char_def)

lemma numeral_value_snoc [simp]:
  "numeral_value b (s @ [c]) = b * numeral_value b s + char_digit c"
  by (simp add: numeral_value_def)

lemma numeral_value_radix: "2 \<le> b \<Longrightarrow> numeral_value b (radix b n) = n"
proof (induction b n rule: radix.induct)
  case (1 b n)
  show ?case
  proof (cases "n < b")
    case True
    then show ?thesis by (simp add: radix.simps [of b n] numeral_value_def)
  next
    case False
    with 1 show ?thesis by (simp add: radix.simps [of b n])
  qed
qed

lemma radix_inject [simp]: "2 \<le> b \<Longrightarrow> radix b m = radix b n \<longleftrightarrow> m = n"
  by (metis numeral_value_radix)

lemma dec_inject [simp]: "dec m = dec n \<longleftrightarrow> m = n"
  by (simp add: dec_def)

lemma hex_inject [simp]: "hex m = hex n \<longleftrightarrow> m = n"
  by (simp add: hex_def)

definition is_digit_of :: "nat \<Rightarrow> rchar \<Rightarrow> bool" where
  "is_digit_of b c \<longleftrightarrow> (\<exists>d < b. c = digit_char d)"

lemma radix_digits: "2 \<le> b \<Longrightarrow> c \<in> set (radix b n) \<Longrightarrow> is_digit_of b c"
proof (induction b n rule: radix.induct)
  case (1 b n)
  show ?case
  proof (cases "n < b")
    case True
    with 1 show ?thesis by (auto simp: radix.simps [of b n] is_digit_of_def)
  next
    case False
    with "1.prems" consider "c \<in> set (radix b (n div b))" | "c = digit_char (n mod b)"
      by (auto simp: radix.simps [of b n])
    then show ?thesis
    proof cases
      case 1
      with "1.IH" "1.prems"(1) False show ?thesis by simp
    next
      case 2
      moreover have "n mod b < b" using "1.prems"(1) by simp
      ultimately show ?thesis unfolding is_digit_of_def by blast
    qed
  qed
qed

lemma radix_not_Nil [simp]: "radix b n \<noteq> []"
  by (subst radix.simps) simp

lemma dec_not_Nil [simp]: "dec n \<noteq> []"
  by (simp add: dec_def)

lemma hex_not_Nil [simp]: "hex n \<noteq> []"
  by (simp add: hex_def)

lemma Nil_neq_hex [simp]: "[] \<noteq> hex n"
  by (metis hex_not_Nil)

lemma dec_digits: "c \<in> set (dec n) \<Longrightarrow> 48 \<le> c \<and> c \<le> 57"
  using radix_digits [of 10 c n] by (auto simp: dec_def is_digit_of_def digit_char_def)

lemma hex_digits: "c \<in> set (hex n) \<Longrightarrow> (48 \<le> c \<and> c \<le> 57) \<or> (97 \<le> c \<and> c \<le> 102)"
  using radix_digits [of 16 c n]
  by (auto simp: hex_def is_digit_of_def digit_char_def split: if_splits)

section \<open>White space and padding\<close>

text \<open>The code points with the Unicode property \<open>White_Space\<close>.\<close>

definition is_ws :: "rchar \<Rightarrow> bool" where
  "is_ws c \<longleftrightarrow> (9 \<le> c \<and> c \<le> 13) \<or> c = 32 \<or> c = 0x85 \<or> c = 0xA0 \<or> c = 0x1680 \<or>
     (0x2000 \<le> c \<and> c \<le> 0x200A) \<or> c = 0x2028 \<or> c = 0x2029 \<or> c = 0x202F \<or> c = 0x205F \<or>
     c = 0x3000"

definition trim_start :: "rstr \<Rightarrow> rstr" where
  "trim_start s = dropWhile is_ws s"

definition trim_end :: "rstr \<Rightarrow> rstr" where
  "trim_end s = rev (dropWhile is_ws (rev s))"

definition trim :: "rstr \<Rightarrow> rstr" where
  "trim s = trim_end (trim_start s)"

text \<open>\<open>{s:<w$}\<close> counts scalar values, not bytes.\<close>

definition pad_right :: "nat \<Rightarrow> rstr \<Rightarrow> rstr" where
  "pad_right w s = s @ replicate (w - length s) 32"

lemma length_pad_right: "length (pad_right w s) = max w (length s)"
  by (simp add: pad_right_def)

lemma trim_end_prefix: "\<exists>t. s = trim_end s @ t \<and> list_all is_ws t"
proof -
  have "rev s = takeWhile is_ws (rev s) @ dropWhile is_ws (rev s)" by simp
  then have "s = trim_end s @ rev (takeWhile is_ws (rev s))"
    unfolding trim_end_def by (metis rev_append rev_rev_ident)
  moreover have "list_all is_ws (rev (takeWhile is_ws (rev s)))"
    by (auto simp: list_all_iff dest: set_takeWhileD)
  ultimately show ?thesis by blast
qed

lemma trim_end_append_ws: "list_all is_ws t \<Longrightarrow> trim_end (s @ t) = trim_end s"
  by (simp add: trim_end_def dropWhile_append list_all_iff)

lemma trim_end_id: "s = [] \<or> \<not> is_ws (last s) \<Longrightarrow> trim_end s = s"
  by (cases s rule: rev_cases) (simp_all add: trim_end_def)

lemma length_trim_end: "length (trim_end s) \<le> length s"
  using length_dropWhile_le [of is_ws "rev s"] by (simp add: trim_end_def)

end
