(* ===== verification/Net_Addr.thy ===== *)
theory Net_Addr
  imports Rust_Text
begin

text \<open>
  The socket addresses of \<open>std::net\<close> the program handles, with the \<open>Display\<close> of each:
  dotted quads, IPv6 text with its longest zero run compressed, and \<open>addr:port\<close>. The
  second half reads the texts back, so that printing an address loses nothing.
\<close>

section \<open>Addresses\<close>

datatype ipv4_addr = Ipv4 u8 u8 u8 u8

text \<open>An IPv6 address is its sixteen octets.\<close>

datatype ipv6_addr = Ipv6 (octets: "u8 list")

definition ipv6_wf :: "ipv6_addr \<Rightarrow> bool" where
  "ipv6_wf a \<longleftrightarrow> length (octets a) = 16"

text \<open>The fields of a \<open>SocketAddrV6\<close> are the address, port, flow label and scope id.\<close>

datatype socket_addr = SockV4 ipv4_addr u16 | SockV6 ipv6_addr u16 u32 u32

definition be16 :: "u8 \<Rightarrow> u8 \<Rightarrow> nat" where
  "be16 hi lo = unat hi * 256 + unat lo"

fun pairs16 :: "u8 list \<Rightarrow> nat list" where
  "pairs16 (hi # lo # r) = be16 hi lo # pairs16 r"
| "pairs16 _ = []"

definition segments :: "ipv6_addr \<Rightarrow> nat list" where
  "segments a = pairs16 (octets a)"

fun ipv4_unspecified :: "ipv4_addr \<Rightarrow> bool" where
  "ipv4_unspecified (Ipv4 a b c d) \<longleftrightarrow> a = 0 \<and> b = 0 \<and> c = 0 \<and> d = 0"

fun addr_unspecified :: "socket_addr \<Rightarrow> bool" where
  "addr_unspecified (SockV4 a p) = ipv4_unspecified a"
| "addr_unspecified (SockV6 a p f sc) = list_all (\<lambda>b. b = 0) (octets a)"

section \<open>Display\<close>

fun join :: "rstr \<Rightarrow> rstr list \<Rightarrow> rstr" where
  "join sep [] = []"
| "join sep [s] = s"
| "join sep (s # ss) = s @ sep @ join sep ss"

definition dec_u8 :: "u8 \<Rightarrow> rstr" where
  "dec_u8 b = dec (unat b)"

fun ipv4_display :: "ipv4_addr \<Rightarrow> rstr" where
  "ipv4_display (Ipv4 a b c d) = join (lit ''.'') (map dec_u8 [a, b, c, d])"

text \<open>
  The longest run of zero segments, the first one if there are several: the loop of the
  standard library, over the index, the run being scanned and the longest so far.
\<close>

fun zero_span :: "nat list \<Rightarrow> nat \<Rightarrow> nat \<times> nat \<Rightarrow> nat \<times> nat \<Rightarrow> nat \<times> nat" where
  "zero_span [] i cur best = best"
| "zero_span (s # ss) i (start, n) best =
     (if s = 0 then
        let cur = (if n = 0 then i else start, Suc n)
        in zero_span ss (Suc i) cur (if snd best < snd cur then cur else best)
      else zero_span ss (Suc i) (0, 0) best)"

definition hex_join :: "nat list \<Rightarrow> rstr" where
  "hex_join ss = join (lit '':'') (map hex ss)"

text \<open>\<open>::ffff:a.b.c.d\<close>, the addresses \<open>to_ipv4_mapped\<close> accepts.\<close>

fun ipv4_mapped :: "u8 list \<Rightarrow> ipv4_addr option" where
  "ipv4_mapped [a0, a1, a2, a3, a4, a5, a6, a7, a8, a9, f0, f1, a, b, c, d] =
     (if list_all (\<lambda>b. b = 0) [a0, a1, a2, a3, a4, a5, a6, a7, a8, a9] \<and> f0 = 0xFF \<and> f1 = 0xFF
      then Some (Ipv4 a b c d) else None)"
| "ipv4_mapped _ = None"

definition ipv6_display :: "ipv6_addr \<Rightarrow> rstr" where
  "ipv6_display a =
     (case ipv4_mapped (octets a) of
        Some v4 \<Rightarrow> lit ''::ffff:'' @ ipv4_display v4
      | None \<Rightarrow>
          (let ss = segments a; (start, n) = zero_span ss 0 (0, 0) (0, 0)
           in if 1 < n then hex_join (take start ss) @ lit ''::'' @ hex_join (drop (start + n) ss)
              else hex_join ss))"

fun socket_display :: "socket_addr \<Rightarrow> rstr" where
  "socket_display (SockV4 a p) = ipv4_display a @ lit '':'' @ dec (unat p)"
| "socket_display (SockV6 a p f sc) =
     lit ''['' @ ipv6_display a @ (if sc = 0 then [] else lit ''%'' @ dec (unat sc)) @ lit '']:''
       @ dec (unat p)"

section \<open>Reading the texts back\<close>

fun split_on :: "rchar \<Rightarrow> rstr \<Rightarrow> rstr list" where
  "split_on c [] = [[]]"
| "split_on c (x # xs) =
     (if x = c then [] # split_on c xs
      else (case split_on c xs of [] \<Rightarrow> [[x]] | p # ps \<Rightarrow> (x # p) # ps))"

lemma split_on_none: "c \<notin> set p \<Longrightarrow> split_on c p = [p]"
  by (induction p) simp_all

lemma split_on_sep: "c \<notin> set p \<Longrightarrow> split_on c (p @ c # s) = p # split_on c s"
  by (induction p) simp_all

lemma split_on_join_sep:
  "ps \<noteq> [] \<Longrightarrow> \<forall>p \<in> set ps. c \<notin> set p \<Longrightarrow> split_on c (join [c] ps @ c # s) = ps @ split_on c s"
  by (induction "[c]" ps rule: join.induct) (simp_all add: split_on_sep)

lemma split_on_join:
  "ps \<noteq> [] \<Longrightarrow> \<forall>p \<in> set ps. c \<notin> set p \<Longrightarrow> split_on c (join [c] ps) = ps"
  by (induction "[c]" ps rule: join.induct) (simp_all add: split_on_sep split_on_none)

definition read_ipv4 :: "rstr \<Rightarrow> nat list" where
  "read_ipv4 s = map (numeral_value 10) (split_on 46 s)"

lemma dec_u8_no_sep: "46 \<notin> set (dec_u8 b)" "58 \<notin> set (dec_u8 b)"
  using dec_digits [of 46 "unat b"] dec_digits [of 58 "unat b"] by (auto simp: dec_u8_def)

lemma numeral_value_dec [simp]: "numeral_value 10 (dec n) = n"
  by (simp add: dec_def numeral_value_radix)

lemma numeral_value_hex [simp]: "numeral_value 16 (hex n) = n"
  by (simp add: hex_def numeral_value_radix)

lemma read_ipv4_display: "read_ipv4 (ipv4_display (Ipv4 a b c d)) = map unat [a, b, c, d]"
proof -
  have "lit ''.'' = [46]" by (simp add: lit_def)
  then have "split_on 46 (ipv4_display (Ipv4 a b c d)) = map dec_u8 [a, b, c, d]"
    unfolding ipv4_display.simps by (simp only:) (rule split_on_join, auto simp: dec_u8_no_sep)
  then show ?thesis by (simp add: read_ipv4_def dec_u8_def)
qed

lemma ipv4_display_inject [simp]: "ipv4_display a = ipv4_display b \<longleftrightarrow> a = b"
proof
  assume "ipv4_display a = ipv4_display b"
  then have "read_ipv4 (ipv4_display a) = read_ipv4 (ipv4_display b)" by simp
  then show "a = b" by (cases a; cases b) (simp add: read_ipv4_display word_unat_eq_iff del: ipv4_display.simps)
qed simp

text \<open>
  IPv6 text: the pieces between colons up to the first empty one, the pieces after the
  last empty one, and zeros for the gap; a last piece with dots is a dotted quad.
\<close>

definition hex_pieces :: "rstr list \<Rightarrow> nat list" where
  "hex_pieces ps = concat (map (\<lambda>p. if 46 \<in> set p
     then (case read_ipv4 p of [a, b, c, d] \<Rightarrow> [a * 256 + b, c * 256 + d] | _ \<Rightarrow> [])
     else [numeral_value 16 p]) ps)"

definition read_ipv6 :: "rstr \<Rightarrow> nat list" where
  "read_ipv6 s =
     (let ps = split_on 58 s;
          front = hex_pieces (takeWhile (\<lambda>p. p \<noteq> []) ps);
          back = hex_pieces (rev (takeWhile (\<lambda>p. p \<noteq> []) (rev ps)))
      in if [] \<in> set ps then front @ replicate (8 - length front - length back) 0 @ back
         else front)"

lemma hex_no_sep: "46 \<notin> set (hex n)" "58 \<notin> set (hex n)"
  using hex_digits [of 46 n] hex_digits [of 58 n] by auto

lemma hex_pieces_hex: "hex_pieces (map hex ns) = ns"
  by (induction ns) (simp_all add: hex_pieces_def hex_no_sep)

lemma lit_dot: "lit ''.'' = [46]"
  by (simp add: lit_def)

lemma lit_colon: "lit '':'' = [58]" "lit ''::'' = [58, 58]"
  by (simp_all add: lit_def)

lemma read_ipv6_plain: "ns \<noteq> [] \<Longrightarrow> read_ipv6 (hex_join ns) = ns"
proof -
  assume ns: "ns \<noteq> []"
  have split: "split_on 58 (hex_join ns) = map hex ns"
    unfolding hex_join_def lit_colon using ns by (intro split_on_join) (auto simp: hex_no_sep)
  have "takeWhile (\<lambda>p. p \<noteq> []) (map hex ns) = map hex ns"
    by (rule takeWhile_eq_all_conv [THEN iffD2]) auto
  moreover have "[] \<notin> set (map hex ns)" by auto
  ultimately show ?thesis by (simp only: read_ipv6_def split Let_def hex_pieces_hex if_False)
qed

lemma split_hex_join: "split_on 58 (hex_join ns) = (if ns = [] then [[]] else map hex ns)"
  unfolding hex_join_def lit_colon using split_on_join [of "map hex ns" 58]
  by (auto simp: hex_no_sep)

lemma split_hex_join_sep:
  "split_on 58 (hex_join ns @ 58 # s) = (if ns = [] then [[]] else map hex ns) @ split_on 58 s"
  unfolding hex_join_def lit_colon using split_on_join_sep [of "map hex ns" 58 s]
  by (auto simp: hex_no_sep)

lemma takeWhile_hex: "takeWhile (\<lambda>p. p \<noteq> []) (map hex ns @ [] # r) = map hex ns"
  by (induction ns) simp_all

lemma rev_takeWhile_hex:
  "rev (takeWhile (\<lambda>p. p \<noteq> []) (rev (l @ [] # map hex ns))) = map hex ns"
  using takeWhile_hex [of "rev ns" "rev l"] by (simp add: rev_map)

lemma read_ipv6_gap:
  "read_ipv6 (hex_join ms @ lit ''::'' @ hex_join ns)
     = ms @ replicate (8 - length ms - length ns) 0 @ ns"
proof -
  let ?ps = "(if ms = [] then [[]] else map hex ms) @ [] # (if ns = [] then [[]] else map hex ns)"
  have "split_on 58 (hex_join ms @ lit ''::'' @ hex_join ns) = ?ps"
    by (simp add: lit_colon split_hex_join_sep split_hex_join)
  moreover have "takeWhile (\<lambda>p. p \<noteq> []) ?ps = map hex ms"
    by (auto simp: takeWhile_hex)
  moreover have "rev (takeWhile (\<lambda>p. p \<noteq> []) (rev ?ps)) = map hex ns"
    using rev_takeWhile_hex [of "if ms = [] then [[]] else map hex ms" ns] by auto
  moreover have "[] \<in> set ?ps" by auto
  ultimately show ?thesis by (simp only: read_ipv6_def Let_def hex_pieces_hex if_True)
qed

lemma zero_span_spec:
  assumes "zero_span ss i (cs, cn) (bs, bn) = (start, n)"
    and "ts = pre @ ss" and "length pre = i"
    and "0 < cn \<Longrightarrow> cs + cn = i" and "bs + bn \<le> i"
    and "\<forall>j. cs \<le> j \<and> j < cs + cn \<longrightarrow> ts ! j = 0"
    and "\<forall>j. bs \<le> j \<and> j < bs + bn \<longrightarrow> ts ! j = 0"
  shows "start + n \<le> length ts \<and> (\<forall>j. start \<le> j \<and> j < start + n \<longrightarrow> ts ! j = 0)"
  using assms
proof (induction ss arbitrary: i cs cn bs bn pre)
  case Nil
  then show ?case by simp
next
  case (Cons s ss)
  have ti: "ts ! i = s" using Cons.prems(2,3) by (auto simp: nth_append)
  have pre: "ts = (pre @ [s]) @ ss" "length (pre @ [s]) = Suc i" using Cons.prems(2,3) by simp_all
  show ?case
  proof (cases "s = 0")
    case True
    define cs' where "cs' = (if cn = 0 then i else cs)"
    have end': "cs' + Suc cn = Suc i" using Cons.prems(4) by (auto simp: cs'_def)
    have zeros': "\<forall>j. cs' \<le> j \<and> j < cs' + Suc cn \<longrightarrow> ts ! j = 0"
      using Cons.prems(4,6) True ti by (auto simp: cs'_def less_Suc_eq)
    have run: "zero_span ss (Suc i) (cs', Suc cn) (if bn < Suc cn then (cs', Suc cn) else (bs, bn))
        = (start, n)"
      using Cons.prems(1) True by (auto simp: cs'_def Let_def split: if_splits)
    show ?thesis
    proof (cases "bn < Suc cn")
      case True
      with Cons.IH [OF _ pre end'] run end' zeros' show ?thesis by auto
    next
      case False
      with Cons.IH [OF _ pre end'] run zeros' Cons.prems(5,7) show ?thesis by auto
    qed
  next
    case False
    with Cons.IH [OF _ pre, of 0 0 bs bn] Cons.prems(1,5,7) show ?thesis by auto
  qed
qed

lemma zero_run_split:
  assumes "start + n \<le> length ts" and "\<forall>j. start \<le> j \<and> j < start + n \<longrightarrow> ts ! j = 0"
  shows "ts = take start ts @ replicate n 0 @ drop (start + n) ts"
proof -
  have "take n (drop start ts) = replicate n 0"
    using assms by (intro nth_equalityI) auto
  then show ?thesis
    by (metis append_take_drop_id add.commute drop_drop)
qed

lemma pairs16_length: "length (pairs16 bs) = length bs div 2"
  by (induction bs rule: pairs16.induct) auto

lemma length_segments: "ipv6_wf a \<Longrightarrow> length (segments a) = 8"
  by (simp add: ipv6_wf_def segments_def pairs16_length)

lemma zero_span_zeros:
  assumes "zero_span ts 0 (0, 0) (0, 0) = (start, n)"
  shows "ts = take start ts @ replicate n 0 @ drop (start + n) ts" and "start + n \<le> length ts"
proof -
  have "start + n \<le> length ts \<and> (\<forall>j. start \<le> j \<and> j < start + n \<longrightarrow> ts ! j = 0)"
    by (rule zero_span_spec [OF assms, of ts "[]"]) simp_all
  then show "ts = take start ts @ replicate n 0 @ drop (start + n) ts" and "start + n \<le> length ts"
    by (blast intro: zero_run_split)+
qed

lemma ipv4_mapped_octets:
  "ipv4_mapped bs = Some (Ipv4 a b c d) \<longleftrightarrow> bs = [0, 0, 0, 0, 0, 0, 0, 0, 0, 0, 0xFF, 0xFF, a, b, c, d]"
  by (cases bs rule: ipv4_mapped.cases) auto

lemma read_ipv6_mapped:
  "read_ipv6 (lit ''::ffff:'' @ ipv4_display (Ipv4 a b c d))
     = [0, 0, 0, 0, 0, 0xFFFF, unat a * 256 + unat b, unat c * 256 + unat d]"
proof -
  let ?q = "ipv4_display (Ipv4 a b c d)"
  have q: "58 \<notin> set ?q" and dot: "46 \<in> set ?q" and ne: "?q \<noteq> []"
    using dec_u8_no_sep by (auto simp: lit_def)
  have "lit ''::ffff:'' = [] @ 58 # [] @ 58 # [102, 102, 102, 102] @ [58]" by (simp add: lit_def)
  then have "split_on 58 (lit ''::ffff:'' @ ?q) = [[], [], [102, 102, 102, 102], ?q]"
    using q by (simp add: split_on_none del: ipv4_display.simps)
  moreover have "hex_pieces [[102, 102, 102, 102], ?q]
      = [0xFFFF, unat a * 256 + unat b, unat c * 256 + unat d]"
    using dot by (simp add: hex_pieces_def read_ipv4_display numeral_value_def char_digit_def
        del: ipv4_display.simps)
  moreover have "hex_pieces [] = []" by (simp add: hex_pieces_def)
  moreover have "replicate 5 (0 :: nat) = [0, 0, 0, 0, 0]" by (simp add: numeral_eq_Suc)
  ultimately show ?thesis using ne by (simp add: read_ipv6_def del: ipv4_display.simps)
qed

text \<open>Reading the text of an address gives its segments.\<close>

lemma read_ipv6_display:
  assumes "ipv6_wf a"
  shows "read_ipv6 (ipv6_display a) = segments a"
proof (cases "ipv4_mapped (octets a)")
  case (Some v4)
  then obtain w x y z where "v4 = Ipv4 w x y z" and 
      "octets a = [0, 0, 0, 0, 0, 0, 0, 0, 0, 0, 0xFF, 0xFF, w, x, y, z]"
    by (cases v4) (auto simp: ipv4_mapped_octets)
  with Some show ?thesis
    by (simp add: ipv6_display_def read_ipv6_mapped segments_def be16_def del: ipv4_display.simps)
next
  case None
  obtain start n where span: "zero_span (segments a) 0 (0, 0) (0, 0) = (start, n)" by fastforce
  note z = zero_span_zeros [OF span]
  have len: "length (segments a) = 8" using assms by (rule length_segments)
  show ?thesis
  proof (cases "1 < n")
    case True
    have "read_ipv6 (ipv6_display a) = take start (segments a) @
        replicate (8 - length (take start (segments a)) - length (drop (start + n) (segments a))) 0 @
        drop (start + n) (segments a)"
      using None span True by (simp only: ipv6_display_def Let_def read_ipv6_gap option.case prod.case if_True)
    also have "8 - length (take start (segments a)) - length (drop (start + n) (segments a)) = n"
      using z(2) len by simp
    finally show ?thesis using z(1) by simp
  next
    case False
    moreover have "segments a \<noteq> []" using len by auto
    ultimately show ?thesis using None span by (simp add: ipv6_display_def read_ipv6_plain)
  qed
qed

lemma be16_inject: "be16 a b = be16 c d \<longleftrightarrow> a = c \<and> b = d"
proof
  assume eq: "be16 a b = be16 c d"
  have lt: "unat b < 256" "unat d < 256" using unsigned_less [of b] unsigned_less [of d] by simp_all
  have "(unat a * 256 + unat b) div 256 = unat a" "(unat a * 256 + unat b) mod 256 = unat b"
    "(unat c * 256 + unat d) div 256 = unat c" "(unat c * 256 + unat d) mod 256 = unat d"
    using lt by simp_all
  with eq have "unat a = unat c \<and> unat b = unat d" unfolding be16_def by metis
  then show "a = c \<and> b = d" by (simp add: word_unat_eq_iff)
qed simp

lemma pairs16_inject:
  "length bs = length cs \<Longrightarrow> even (length bs) \<Longrightarrow> pairs16 bs = pairs16 cs \<Longrightarrow> bs = cs"
proof (induction bs arbitrary: cs rule: pairs16.induct)
  case (1 hi lo r)
  obtain hi' lo' r' where "cs = hi' # lo' # r'"
    using "1.prems"(1) by (cases cs rule: pairs16.cases) auto
  with 1 show ?case by (auto simp: be16_inject)
qed auto

lemma ipv6_display_inject:
  assumes "ipv6_wf a" and "ipv6_wf b" and "ipv6_display a = ipv6_display b"
  shows "a = b"
proof -
  have "segments a = segments b" using assms read_ipv6_display by metis
  then have "octets a = octets b"
    using assms(1,2) by (intro pairs16_inject) (simp_all add: segments_def ipv6_wf_def)
  then show ?thesis by (cases a; cases b) simp
qed

end
