(* ===== verification/Hash_Map.thy ===== *)
theory Hash_Map
  imports Prelude "HOL-Library.AList" "HOL-Library.Multiset"
begin

text \<open>
  \<open>std::collections::HashMap\<close> as the program uses it: an association list with one pair
  per key, whose order stands for the unspecified iteration order. The locale states the
  contract the stream registry and the Tor manager rely on, and proves from it what they
  need; the interpretation at the end discharges it for the association lists.
\<close>

section \<open>The contract\<close>

locale hash_map =
  fixes empty :: "'m"
    and insert :: "'k \<Rightarrow> 'v \<Rightarrow> 'm \<Rightarrow> 'm"
    and remove :: "'k \<Rightarrow> 'm \<Rightarrow> 'm"
    and get :: "'m \<Rightarrow> 'k \<Rightarrow> 'v option"
    and len :: "'m \<Rightarrow> nat"
    and vals :: "'m \<Rightarrow> 'v list"
    and wf :: "'m \<Rightarrow> bool"
  assumes wf_empty: "wf empty"
    and wf_insert: "wf m \<Longrightarrow> wf (insert k v m)"
    and wf_remove: "wf m \<Longrightarrow> wf (remove k m)"
    and get_empty: "get empty = (\<lambda>_. None)"
    and get_insert: "wf m \<Longrightarrow> get (insert k v m) = (get m)(k \<mapsto> v)"
    and get_remove: "wf m \<Longrightarrow> get (remove k m) = (get m)(k := None)"
    and finite_get: "wf m \<Longrightarrow> finite (dom (get m))"
    and len_card: "wf m \<Longrightarrow> len m = card (dom (get m))"
    and vals_mset: "wf m \<Longrightarrow> mset (vals m) = image_mset (the \<circ> get m) (mset_set (dom (get m)))"
begin

lemma len_insert_fresh:
  "wf m \<Longrightarrow> get m k = None \<Longrightarrow> len (insert k v m) = Suc (len m)"
  by (simp add: len_card wf_insert get_insert finite_get card_insert_if domIff)

lemma len_insert_present:
  "wf m \<Longrightarrow> get m k = Some w \<Longrightarrow> len (insert k v m) = len m"
  by (simp add: len_card wf_insert get_insert insert_absorb domI)

lemma len_remove_present:
  assumes "wf m" and "get m k = Some v"
  shows "len m = Suc (len (remove k m))"
proof -
  have "k \<in> dom (get m)" using assms(2) by blast
  moreover have "dom (get (remove k m)) = dom (get m) - {k}" using assms(1) by (simp add: get_remove)
  ultimately show ?thesis
    using assms(1) card_Suc_Diff1 [OF finite_get [OF assms(1)]]
    by (simp only: len_card wf_remove)
qed

lemma vals_insert_fresh:
  assumes "wf m" and "get m k = None"
  shows "mset (vals (insert k v m)) = add_mset v (mset (vals m))"
proof -
  have "image_mset (the \<circ> (get m)(k \<mapsto> v)) (mset_set (dom (get m)))
      = image_mset (the \<circ> get m) (mset_set (dom (get m)))"
    using assms by (intro image_mset_cong) (auto simp: finite_get domIff)
  with assms show ?thesis
    by (simp add: vals_mset wf_insert get_insert finite_get domIff)
qed

lemma vals_cong:
  "wf m \<Longrightarrow> wf m' \<Longrightarrow> get m = get m' \<Longrightarrow> mset (vals m) = mset (vals m')"
  by (simp add: vals_mset)

lemma set_vals: "wf m \<Longrightarrow> set (vals m) = ran (get m)"
proof -
  assume wf: "wf m"
  have "set (vals m) = set_mset (mset (vals m))" by simp
  also have "\<dots> = (the \<circ> get m) ` dom (get m)"
    using wf by (simp add: vals_mset finite_get del: set_mset_mset)
  also have "\<dots> = ran (get m)" by (force simp: ran_def image_iff)
  finally show ?thesis .
qed

lemma length_vals: "wf m \<Longrightarrow> length (vals m) = len m"
proof -
  assume wf: "wf m"
  have "length (vals m) = size (mset (vals m))" by simp
  also have "\<dots> = len m" using wf by (simp add: vals_mset len_card finite_get del: size_mset)
  finally show ?thesis .
qed

lemma insert_remove_fresh:
  "wf m \<Longrightarrow> get m k = None \<Longrightarrow> get (remove k (insert k v m)) = get m"
  by (simp add: get_remove get_insert wf_insert fun_upd_idem_iff)

lemmas map_laws = wf_empty wf_insert wf_remove get_empty get_insert get_remove

end

section \<open>Association lists\<close>

type_synonym ('k, 'v) hashmap = "('k \<times> 'v) list"

definition hm_new :: "('k, 'v) hashmap" where
  "hm_new = []"

definition hm_insert :: "'k \<Rightarrow> 'v \<Rightarrow> ('k, 'v) hashmap \<Rightarrow> ('k, 'v) hashmap" where
  "hm_insert k v m = AList.update k v m"

definition hm_remove :: "'k \<Rightarrow> ('k, 'v) hashmap \<Rightarrow> ('k, 'v) hashmap" where
  "hm_remove k m = AList.delete k m"

definition hm_get :: "('k, 'v) hashmap \<Rightarrow> 'k \<Rightarrow> 'v option" where
  "hm_get m k = map_of m k"

definition hm_len :: "('k, 'v) hashmap \<Rightarrow> nat" where
  "hm_len m = length m"

definition hm_values :: "('k, 'v) hashmap \<Rightarrow> 'v list" where
  "hm_values m = map snd m"

definition hm_wf :: "('k, 'v) hashmap \<Rightarrow> bool" where
  "hm_wf m \<longleftrightarrow> distinct (map fst m)"

lemmas hm_defs = hm_new_def hm_insert_def hm_remove_def hm_get_def hm_len_def hm_values_def
  hm_wf_def

lemma hm_get_eq: "hm_get m = map_of m"
  by (rule ext) (simp add: hm_get_def)

lemma mset_values_alist:
  "distinct (map fst m) \<Longrightarrow>
   mset (map snd m) = image_mset (the \<circ> map_of m) (mset_set (dom (map_of m)))"
proof (induction m)
  case Nil
  then show ?case by simp
next
  case (Cons kv m)
  obtain k v where kv: "kv = (k, v)" by (cases kv)
  with Cons.prems have fresh: "k \<notin> dom (map_of m)" by (auto simp: dom_map_of_conv_image_fst)
  have "image_mset (the \<circ> map_of (kv # m)) (mset_set (dom (map_of m)))
      = image_mset (the \<circ> map_of m) (mset_set (dom (map_of m)))"
    using fresh by (intro image_mset_cong) (auto simp: kv finite_dom_map_of)
  moreover have "(the \<circ> map_of (kv # m)) k = v" by (simp add: kv)
  moreover have "mset_set (dom (map_of (kv # m))) = add_mset k (mset_set (dom (map_of m)))"
    using fresh by (simp add: kv finite_dom_map_of del: fun_upd_apply)
  moreover have "mset (map snd m) = image_mset (the \<circ> map_of m) (mset_set (dom (map_of m)))"
    using Cons by (simp add: comp_def)
  ultimately show ?case by (simp only: list.map mset.simps image_mset_add_mset) (simp add: kv)
qed

interpretation hm: hash_map hm_new hm_insert hm_remove hm_get hm_len hm_values hm_wf
proof
  fix m :: "('k, 'v) hashmap" and k v
  show "hm_wf (hm_new :: ('k, 'v) hashmap)" by (simp add: hm_defs)
  show "hm_get (hm_new :: ('k, 'v) hashmap) = (\<lambda>_. None)" by (simp add: hm_get_eq hm_new_def)
  assume wf: "hm_wf m"
  show "hm_wf (hm_insert k v m)" using wf by (simp add: hm_defs distinct_update)
  show "hm_wf (hm_remove k m)" using wf by (simp add: hm_defs distinct_delete)
  show "hm_get (hm_insert k v m) = (hm_get m)(k \<mapsto> v)"
    by (simp add: hm_get_eq hm_insert_def update_conv')
  show "hm_get (hm_remove k m) = (hm_get m)(k := None)"
    by (simp add: hm_get_eq hm_remove_def delete_conv')
  show "finite (dom (hm_get m))" by (simp add: hm_get_eq finite_dom_map_of)
  show "hm_len m = card (dom (hm_get m))"
    using wf distinct_card [of "map fst m"]
    by (simp add: hm_get_eq hm_len_def hm_wf_def dom_map_of_conv_image_fst)
  show "mset (hm_values m) = image_mset (the \<circ> hm_get m) (mset_set (dom (hm_get m)))"
    using wf unfolding hm_get_eq hm_values_def hm_wf_def by (rule mset_values_alist)
qed

lemma hm_entries: "hm_wf m \<Longrightarrow> (k, v) \<in> set m \<longleftrightarrow> hm_get m k = Some v"
  by (simp add: hm_wf_def hm_get_def map_of_eq_Some_iff)

end
