(* ===== verification/Streams.thy ===== *)
theory Streams
  imports Net_Addr Hash_Map
begin

text \<open>
  \<open>streams.rs\<close>: the registry of proxied connections. A row is shared (\<open>Arc\<close>) between the
  registry, its handle and the metering adapter, so the entries live in an explicit heap:
  an address is an index, the registry maps ids to addresses, and a handle is an address.
  The abstract view of the registry is the set of live addresses.
\<close>

section \<open>State\<close>

text \<open>Instants are nanoseconds of the monotonic clock.\<close>

record stream_entry =
  entry_id :: u64
  entry_peer :: socket_addr
  entry_target :: rstr
  entry_isolation :: "rstr option"
  entry_started :: nat
  to_upstream :: u64
  to_client :: u64

record stream_snapshot =
  row_id :: u64
  row_peer :: rstr
  row_target :: rstr
  row_isolation :: "rstr option"
  row_age_secs :: u64
  row_to_upstream :: u64
  row_to_client :: u64

record registry =
  rows :: "(u64, nat) hashmap"
  next_id :: u64
  heap :: "stream_entry list"

definition new_registry :: registry where
  "new_registry = \<lparr>rows = hm_new, next_id = 0, heap = []\<rparr>"

section \<open>Operations\<close>

definition new_entry :: "u64 \<Rightarrow> nat \<Rightarrow> socket_addr \<Rightarrow> rstr \<Rightarrow> rstr option \<Rightarrow> stream_entry" where
  "new_entry i now peer target user =
     \<lparr>entry_id = i, entry_peer = peer, entry_target = target, entry_isolation = user,
      entry_started = now, to_upstream = 0, to_client = 0\<rparr>"

definition register ::
  "nat \<Rightarrow> socket_addr \<Rightarrow> rstr \<Rightarrow> rstr option \<Rightarrow> registry \<Rightarrow> nat \<times> registry" where
  "register now peer target user g =
     (let i = next_id g; a = length (heap g)
      in (a, \<lparr>rows = hm_insert i a (rows g), next_id = fetch_add i 1,
              heap = heap g @ [new_entry i now peer target user]\<rparr>))"

definition registry_len :: "registry \<Rightarrow> nat" where
  "registry_len g = hm_len (rows g)"

definition registry_is_empty :: "registry \<Rightarrow> bool" where
  "registry_is_empty g \<longleftrightarrow> registry_len g = 0"

definition snapshot_row :: "nat \<Rightarrow> stream_entry \<Rightarrow> stream_snapshot" where
  "snapshot_row now e =
     \<lparr>row_id = entry_id e,
      row_peer = (if addr_unspecified (entry_peer e) then lit ''local'' else socket_display (entry_peer e)),
      row_target = entry_target e,
      row_isolation = entry_isolation e,
      row_age_secs = of_nat ((now - entry_started e) div 10 ^ 9),
      row_to_upstream = to_upstream e,
      row_to_client = to_client e\<rparr>"

definition registry_snapshot :: "nat \<Rightarrow> registry \<Rightarrow> stream_snapshot list" where
  "registry_snapshot now g =
     sort_key row_id (map (\<lambda>a. snapshot_row now (heap g ! a)) (hm_values (rows g)))"

text \<open>\<open>Drop\<close> of a handle, and the increments through the shared entry.\<close>

definition drop_handle :: "nat \<Rightarrow> registry \<Rightarrow> registry" where
  "drop_handle a g = g\<lparr>rows := hm_remove (entry_id (heap g ! a)) (rows g)\<rparr>"

definition entry_upstream :: "nat \<Rightarrow> u64 \<Rightarrow> registry \<Rightarrow> registry" where
  "entry_upstream a n g =
     g\<lparr>heap := (heap g)[a := (heap g ! a)\<lparr>to_upstream := fetch_add (to_upstream (heap g ! a)) n\<rparr>]\<rparr>"

definition entry_client :: "nat \<Rightarrow> u64 \<Rightarrow> registry \<Rightarrow> registry" where
  "entry_client a n g =
     g\<lparr>heap := (heap g)[a := (heap g ! a)\<lparr>to_client := fetch_add (to_client (heap g ! a)) n\<rparr>]\<rparr>"

section \<open>The invariant\<close>

text \<open>
  Ids are the allocation numbers modulo \<open>2\<^sup>6\<^sup>4\<close>, and every row points to the entry with its
  id. The abstract view is the set of addresses whose row is present.
\<close>

definition registry_wf :: "registry \<Rightarrow> bool" where
  "registry_wf g \<longleftrightarrow> hm_wf (rows g) \<and> next_id g = of_nat (length (heap g)) \<and>
     (\<forall>a < length (heap g). entry_id (heap g ! a) = of_nat a) \<and>
     (\<forall>k a. hm_get (rows g) k = Some a \<longrightarrow> a < length (heap g) \<and> k = of_nat a)"

definition live :: "registry \<Rightarrow> nat set" where
  "live g = ran (hm_get (rows g))"

lemma registry_wf_new: "registry_wf new_registry"
  by (simp add: registry_wf_def new_registry_def hm.map_laws)

lemma live_new [simp]: "live new_registry = {}"
  by (simp add: live_def new_registry_def hm.map_laws)

lemma register_addr: "fst (register now peer target user g) = length (heap g)"
  by (simp add: register_def Let_def)

lemma register_heap:
  "heap (snd (register now peer target user g)) = heap g @ [new_entry (next_id g) now peer target user]"
  by (simp add: register_def Let_def)

lemma register_wf: "registry_wf g \<Longrightarrow> registry_wf (snd (register now peer target user g))"
  by (auto simp: registry_wf_def register_def Let_def hm.map_laws nth_append new_entry_def
      fetch_add_def less_Suc_eq split: if_splits)

lemma drop_wf: "registry_wf g \<Longrightarrow> registry_wf (drop_handle a g)"
  by (auto simp: registry_wf_def drop_handle_def hm.map_laws split: if_splits)

lemma entry_id_list_update:
  "entry_id e = entry_id (h ! a) \<Longrightarrow> b < length h \<Longrightarrow> entry_id (h[a := e] ! b) = entry_id (h ! b)"
  by (cases "a = b") simp_all

lemma entry_upstream_wf: "registry_wf g \<Longrightarrow> registry_wf (entry_upstream a n g)"
  by (simp add: registry_wf_def entry_upstream_def entry_id_list_update)

lemma entry_client_wf: "registry_wf g \<Longrightarrow> registry_wf (entry_client a n g)"
  by (simp add: registry_wf_def entry_client_def entry_id_list_update)

lemmas registry_wf_ops [intro] = registry_wf_new register_wf drop_wf entry_upstream_wf
  entry_client_wf

lemma live_row:
  "registry_wf g \<Longrightarrow> a \<in> live g \<longleftrightarrow> hm_get (rows g) (of_nat a) = Some a"
  by (auto simp: live_def ran_def registry_wf_def)

lemma live_bound: "registry_wf g \<Longrightarrow> a \<in> live g \<Longrightarrow> a < length (heap g)"
  by (auto simp: live_def ran_def registry_wf_def)

lemma finite_live: "registry_wf g \<Longrightarrow> finite (live g)"
  by (rule finite_subset [of _ "{..<length (heap g)}"]) (auto dest: live_bound)

text \<open>
  While fewer than \<open>2\<^sup>6\<^sup>4\<close> connections were registered, no id is used twice: registering adds
  exactly the new address and dropping a handle removes exactly its own.
\<close>

lemma live_register:
  assumes "registry_wf g" and "length (heap g) < 2 ^ 64"
  shows "live (snd (register now peer target user g)) = insert (length (heap g)) (live g)"
proof -
  have fresh: "hm_get (rows g) (next_id g) = None"
  proof (rule ccontr)
    assume "hm_get (rows g) (next_id g) \<noteq> None"
    then obtain a where "a < length (heap g)" and "(of_nat (length (heap g)) :: u64) = of_nat a"
      using assms(1) by (auto simp: registry_wf_def)
    with assms(2) show False using of_nat_u64_inject [of "length (heap g)" a] by simp
  qed
  have "hm_get (rows (snd (register now peer target user g))) = (hm_get (rows g))(next_id g \<mapsto> length (heap g))"
    using assms(1) by (simp add: register_def Let_def registry_wf_def hm.get_insert)
  then show ?thesis using fresh by (simp add: live_def)
qed

lemma live_drop:
  assumes "registry_wf g" and "length (heap g) \<le> 2 ^ 64" and "a < length (heap g)"
  shows "live (drop_handle a g) = live g - {a}"
proof -
  have "entry_id (heap g ! a) = of_nat a" using assms by (simp add: registry_wf_def)
  then have get: "hm_get (rows (drop_handle a g)) = (hm_get (rows g))(of_nat a := None)"
    using assms(1) by (simp add: drop_handle_def registry_wf_def hm.get_remove)
  have "b \<in> live (drop_handle a g) \<longleftrightarrow> b \<in> live g \<and> b \<noteq> a" for b
  proof (cases "b \<in> live g")
    case True
    then have "b < 2 ^ 64" using live_bound assms(1,2) by fastforce
    moreover have "a < 2 ^ 64" using assms(2,3) by simp
    ultimately have "(of_nat b :: u64) = of_nat a \<longleftrightarrow> b = a" by (rule of_nat_u64_inject)
    with True assms(1) show ?thesis by (simp add: live_row drop_wf get)
  next
    case False
    with assms(1) show ?thesis by (simp add: live_row drop_wf get)
  qed
  then show ?thesis by blast
qed

lemma live_entry_upstream [simp]: "live (entry_upstream a n g) = live g"
  by (simp add: live_def entry_upstream_def)

lemma live_entry_client [simp]: "live (entry_client a n g) = live g"
  by (simp add: live_def entry_client_def)

lemma inj_on_rows:
  "registry_wf g \<Longrightarrow> inj_on (hm_get (rows g)) (dom (hm_get (rows g)))"
  by (rule inj_onI) (metis domD registry_wf_def)

lemma registry_len_live:
  assumes "registry_wf g"
  shows "registry_len g = card (live g)"
proof -
  have "live g = (the \<circ> hm_get (rows g)) ` dom (hm_get (rows g))"
    by (force simp: live_def ran_def image_iff)
  moreover have "inj_on (the \<circ> hm_get (rows g)) (dom (hm_get (rows g)))"
  proof (rule inj_onI)
    fix k l
    assume "k \<in> dom (hm_get (rows g))" "l \<in> dom (hm_get (rows g))"
      and "(the \<circ> hm_get (rows g)) k = (the \<circ> hm_get (rows g)) l"
    then show "k = l" by (intro inj_onD [OF inj_on_rows [OF assms]]) auto
  qed
  ultimately have "card (live g) = card (dom (hm_get (rows g)))" by (metis card_image)
  with assms show ?thesis by (simp add: registry_len_def hm.len_card registry_wf_def)
qed

lemma hm_values_live:
  assumes "registry_wf g"
  shows "set (hm_values (rows g)) = live g" and "distinct (hm_values (rows g))"
proof -
  have wf: "hm_wf (rows g)" using assms by (simp add: registry_wf_def)
  then show set: "set (hm_values (rows g)) = live g" by (simp add: hm.set_vals live_def)
  have "length (hm_values (rows g)) = card (live g)"
    using hm.length_vals [OF wf] registry_len_live [OF assms] by (simp add: registry_len_def)
  then show "distinct (hm_values (rows g))" by (intro card_distinct) (simp add: set)
qed

definition default_peer :: socket_addr where
  "default_peer = SockV4 (Ipv4 192 0 2 7) 40000"

section \<open>Runs of registry operations\<close>

datatype registry_op =
    Register nat socket_addr rstr "rstr option" | DropHandle nat | AddUpstream nat u64 | AddClient nat u64

fun registry_step :: "registry \<Rightarrow> registry_op \<Rightarrow> registry" where
  "registry_step g (Register now peer target user) = snd (register now peer target user g)"
| "registry_step g (DropHandle a) = drop_handle a g"
| "registry_step g (AddUpstream a n) = entry_upstream a n g"
| "registry_step g (AddClient a n) = entry_client a n g"

text \<open>
  The specification keeps the number of connections ever registered and the set of those
  that are live.
\<close>

fun spec_step :: "nat \<times> nat set \<Rightarrow> registry_op \<Rightarrow> nat \<times> nat set" where
  "spec_step (n, L) (Register now peer target user) = (Suc n, insert n L)"
| "spec_step (n, L) (DropHandle a) = (n, L - {a})"
| "spec_step (n, L) (AddUpstream a k) = (n, L)"
| "spec_step (n, L) (AddClient a k) = (n, L)"

text \<open>A handle that is dropped was returned by an earlier registration.\<close>

fun handles_valid :: "nat \<Rightarrow> registry_op list \<Rightarrow> bool" where
  "handles_valid n [] = True"
| "handles_valid n (DropHandle a # ops) = (a < n \<and> handles_valid n ops)"
| "handles_valid n (Register now peer target user # ops) = handles_valid (Suc n) ops"
| "handles_valid n (_ # ops) = handles_valid n ops"

fun registrations :: "registry_op list \<Rightarrow> nat" where
  "registrations [] = 0"
| "registrations (Register now peer target user # ops) = Suc (registrations ops)"
| "registrations (_ # ops) = registrations ops"

definition abs_registry :: "registry \<Rightarrow> nat \<times> nat set" where
  "abs_registry g = (length (heap g), live g)"

lemma registry_step_wf: "registry_wf g \<Longrightarrow> registry_wf (registry_step g x)"
  by (cases x) auto

lemma heap_length_ops [simp]:
  "length (heap (drop_handle a g)) = length (heap g)"
  "length (heap (entry_upstream a n g)) = length (heap g)"
  "length (heap (entry_client a n g)) = length (heap g)"
  by (simp_all add: drop_handle_def entry_upstream_def entry_client_def)

lemma registry_run:
  assumes "registry_wf g" and "handles_valid (length (heap g)) ops"
    and "length (heap g) + registrations ops \<le> 2 ^ 64"
  shows "abs_registry (foldl registry_step g ops) = foldl spec_step (abs_registry g) ops
    \<and> registry_wf (foldl registry_step g ops)"
  using assms
proof (induction ops arbitrary: g)
  case Nil
  then show ?case by simp
next
  case (Cons x ops)
  have "abs_registry (registry_step g x) = spec_step (abs_registry g) x"
    using Cons.prems
    by (cases x) (auto simp: abs_registry_def live_register live_drop register_heap)
  moreover have "handles_valid (length (heap (registry_step g x))) ops"
    and "length (heap (registry_step g x)) + registrations ops \<le> 2 ^ 64"
    using Cons.prems(2,3) by (cases x; simp add: register_heap)+
  ultimately show ?case
    using Cons.IH [OF registry_step_wf [OF Cons.prems(1)]] by simp
qed

text \<open>
  C23. The registry implements its specification: after any run of registrations, counter
  updates and handle drops with at most \<open>2\<^sup>6\<^sup>4\<close> registrations, its rows are exactly the
  connections registered and not yet dropped, and \<open>len\<close> is their number.
\<close>

theorem registry_refines:
  assumes "registry_wf g" and "handles_valid (length (heap g)) ops"
    and "length (heap g) + registrations ops \<le> 2 ^ 64"
  shows "abs_registry (foldl registry_step g ops) = foldl spec_step (abs_registry g) ops
    \<and> registry_len (foldl registry_step g ops) = card (snd (foldl spec_step (abs_registry g) ops))"
  using registry_run [OF assms] registry_len_live by (metis abs_registry_def snd_conv)

definition example_ops :: "registry_op list" where
  "example_ops = [Register 0 default_peer (lit ''a:1'') None, Register 5 default_peer (lit ''b:2'') None,
     AddUpstream 1 7, DropHandle 0]"

lemma example_ops_ok:
  "handles_valid (length (heap new_registry)) example_ops"
  "length (heap new_registry) + registrations example_ops \<le> 2 ^ 64"
  "foldl spec_step (abs_registry new_registry) example_ops = (2, {1})"
proof -
  have "{Suc 0, 0} - {0} = {Suc 0}" by auto
  then show "foldl spec_step (abs_registry new_registry) example_ops = (2, {1})"
    by (simp add: abs_registry_def example_ops_def) (simp add: new_registry_def)
qed (simp_all add: new_registry_def example_ops_def)

theorem registry_refines_witness:
  "abs_registry (foldl registry_step new_registry example_ops) = (2, {1})
   \<and> registry_len (foldl registry_step new_registry example_ops) = 1"
  using registry_refines [OF registry_wf_new example_ops_ok(1,2)] by (simp add: example_ops_ok(3))

section \<open>Snapshots\<close>

lemma of_nat_u64_le:
  "m < 2 ^ 64 \<Longrightarrow> n < 2 ^ 64 \<Longrightarrow> (of_nat m :: u64) \<le> of_nat n \<longleftrightarrow> m \<le> n"
  by (simp only: word_le_nat_alt unat_of_nat_u64)

lemma snapshot_sorted_live:
  assumes "registry_wf g" and "length (heap g) \<le> 2 ^ 64"
  shows "registry_snapshot now g = map (\<lambda>a. snapshot_row now (heap g ! a)) (sorted_list_of_set (live g))"
proof -
  let ?f = "\<lambda>a. snapshot_row now (heap g ! a)"
  have bound: "a < 2 ^ 64" if "a \<in> live g" for a
    using live_bound [OF assms(1) that] assms(2) by simp
  have id: "row_id (?f a) = of_nat a" if "a \<in> live g" for a
    using live_bound [OF assms(1) that] assms(1) by (simp add: snapshot_row_def registry_wf_def)
  note vs = hm_values_live [OF assms(1)] and fin = finite_live [OF assms(1)]
  have "mset (hm_values (rows g)) = mset (sorted_list_of_set (live g))"
    using vs fin by (intro set_eq_iff_mset_eq_distinct [THEN iffD1]) simp_all
  then have "mset (map ?f (hm_values (rows g))) = mset (map ?f (sorted_list_of_set (live g)))"
    by simp
  moreover have "inj_on row_id (set (map ?f (hm_values (rows g))))"
    using bound by (auto simp: vs id of_nat_u64_inject intro!: inj_onI)
  moreover have "sorted_wrt (\<lambda>a b. row_id (?f a) \<le> row_id (?f b)) (sorted_list_of_set (live g))"
    using fin by (intro sorted_wrt_mono_rel [OF _ sorted_sorted_list_of_set [of "live g"]])
      (auto simp: id intro!: of_nat_u64_le [THEN iffD2] bound)
  then have "sorted (map row_id (map ?f (sorted_list_of_set (live g))))"
    by (simp add: sorted_wrt_map)
  ultimately show ?thesis
    unfolding registry_snapshot_def by (rule sort_key_inj_key_eq)
qed

text \<open>
  A snapshot lists exactly the live connections, each once, in the order they were
  registered, whatever order the hash map iterates in.
\<close>

theorem snapshot_live:
  assumes "registry_wf g" and "length (heap g) \<le> 2 ^ 64"
  shows "registry_snapshot now g = map (\<lambda>a. snapshot_row now (heap g ! a)) (sorted_list_of_set (live g))"
  by (rule snapshot_sorted_live [OF assms])

theorem snapshot_live_witness:
  "registry_snapshot 3000000000 (foldl registry_step new_registry example_ops)
     = [\<lparr>row_id = 1, row_peer = lit ''192.0.2.7:40000'', row_target = lit ''b:2'',
         row_isolation = None, row_age_secs = 2, row_to_upstream = 7, row_to_client = 0\<rparr>]"
proof -
  let ?g = "foldl registry_step new_registry example_ops"
  have run: "abs_registry ?g = (2, {1})" "registry_wf ?g"
    using registry_run [OF registry_wf_new example_ops_ok(1,2)] by (simp_all add: example_ops_ok(3))
  have "heap ?g ! 1 = (new_entry 1 5 default_peer (lit ''b:2'') None)\<lparr>to_upstream := 7\<rparr>"
    by (simp add: example_ops_def new_registry_def register_def Let_def entry_upstream_def
        drop_handle_def new_entry_def fetch_add_def)
  moreover have "socket_display default_peer = lit ''192.0.2.7:40000''"
    by (simp add: default_peer_def lit_def dec_u8_def dec_def radix.simps digit_char_def)
  ultimately show ?thesis
    using snapshot_live [OF run(2), of 3000000000] run(1)
    by (simp add: abs_registry_def snapshot_row_def new_entry_def) (simp add: default_peer_def)
qed

end
