(* ===== verification/Metered.thy ===== *)
theory Metered
  imports Async_Stream Metrics Streams
begin

text \<open>
  \<open>socks/metered.rs\<close>: the adapter around the client stream that counts bytes inside the
  poll methods, into the process totals and into the connection's row. The runtime's
  \<open>copy_bidirectional\<close> drives it; what it may do to the client half is a list of poll
  calls, of any length and order, with the error that ended it left to the caller.
\<close>

section \<open>The adapter\<close>

text \<open>The state the connections share: \<open>Arc<Metrics>\<close> and \<open>Arc<StreamRegistry>\<close>.\<close>

record shared =
  totals :: metrics
  streams :: registry

definition meter_upstream :: "nat \<Rightarrow> u64 \<Rightarrow> 'x shared_scheme \<Rightarrow> 'x shared_scheme" where
  "meter_upstream a n w =
     w\<lparr>totals := count_upstream n (totals w), streams := entry_upstream a n (streams w)\<rparr>"

definition meter_client :: "nat \<Rightarrow> u64 \<Rightarrow> 'x shared_scheme \<Rightarrow> 'x shared_scheme" where
  "meter_client a n w =
     w\<lparr>totals := count_client n (totals w), streams := entry_client a n (streams w)\<rparr>"

text \<open>The number of bytes read is a difference of lengths converted to \<open>u64\<close>.\<close>

definition metered_poll_read ::
  "'s stream_ops \<Rightarrow> nat \<Rightarrow> read_buf \<Rightarrow> 's \<Rightarrow> 'x shared_scheme \<Rightarrow>
   (io_error + unit) poll \<times> read_buf \<times> 's \<times> 'x shared_scheme" where
  "metered_poll_read io a buf s w =
     (let before = length (filled buf); (r, buf', s') = poll_read io buf s
      in case r of
           Ready (Inr _) \<Rightarrow>
             (let n = of_nat (length (filled buf')) - of_nat before
              in (r, buf', s', if 0 < n then meter_upstream a n w else w))
         | _ \<Rightarrow> (r, buf', s', w))"

definition metered_poll_write ::
  "'s stream_ops \<Rightarrow> nat \<Rightarrow> u8 list \<Rightarrow> 's \<Rightarrow> 'x shared_scheme \<Rightarrow>
   (io_error + nat) poll \<times> 's \<times> 'x shared_scheme" where
  "metered_poll_write io a buf s w =
     (let (r, s') = poll_write io buf s
      in case r of
           Ready (Inr n) \<Rightarrow> (r, s', meter_client a (of_nat n) w)
         | _ \<Rightarrow> (r, s', w))"

definition metered_poll_flush ::
  "'s stream_ops \<Rightarrow> 's \<Rightarrow> (io_error + unit) poll \<times> 's" where
  "metered_poll_flush io s = poll_flush io s"

definition metered_poll_shutdown ::
  "'s stream_ops \<Rightarrow> 's \<Rightarrow> (io_error + unit) poll \<times> 's" where
  "metered_poll_shutdown io s = poll_shutdown io s"

section \<open>Runs of poll calls\<close>

datatype copy_op = CopyRead read_buf | CopyWrite "u8 list" | CopyFlush | CopyShutdown

text \<open>
  One call, with what crossed the adapter: the bytes delivered to the copy and the bytes
  the client accepted.
\<close>

fun metered_step ::
  "'s stream_ops \<Rightarrow> nat \<Rightarrow> copy_op \<Rightarrow> 's \<times> 'x shared_scheme \<Rightarrow>
   (u8 list \<times> u8 list) \<times> 's \<times> 'x shared_scheme" where
  "metered_step io a (CopyRead buf) (s, w) =
     (case metered_poll_read io a buf s w of (r, buf', s', w') \<Rightarrow>
        ((case r of Ready (Inr _) \<Rightarrow> drop (length (filled buf)) (filled buf') | _ \<Rightarrow> [], []), s', w'))"
| "metered_step io a (CopyWrite buf) (s, w) =
     (case metered_poll_write io a buf s w of (r, s', w') \<Rightarrow>
        (([], case r of Ready (Inr n) \<Rightarrow> take n buf | _ \<Rightarrow> []), s', w'))"
| "metered_step io a CopyFlush (s, w) = (([], []), snd (metered_poll_flush io s), w)"
| "metered_step io a CopyShutdown (s, w) = (([], []), snd (metered_poll_shutdown io s), w)"

fun metered_run ::
  "'s stream_ops \<Rightarrow> nat \<Rightarrow> copy_op list \<Rightarrow> 's \<times> 'x shared_scheme \<Rightarrow>
   (u8 list \<times> u8 list) \<times> 's \<times> 'x shared_scheme" where
  "metered_run io a [] c = (([], []), c)"
| "metered_run io a (x # xs) c =
     (case metered_step io a x c of ((up, down), c1) \<Rightarrow>
        (case metered_run io a xs c1 of ((ups, downs), c2) \<Rightarrow> ((up @ ups, down @ downs), c2)))"

text \<open>The same calls on the bare stream.\<close>

fun plain_step :: "'s stream_ops \<Rightarrow> copy_op \<Rightarrow> 's \<Rightarrow> (u8 list \<times> u8 list) \<times> 's" where
  "plain_step io (CopyRead buf) s =
     (case poll_read io buf s of (r, buf', s') \<Rightarrow>
        ((case r of Ready (Inr _) \<Rightarrow> drop (length (filled buf)) (filled buf') | _ \<Rightarrow> [], []), s'))"
| "plain_step io (CopyWrite buf) s =
     (case poll_write io buf s of (r, s') \<Rightarrow>
        (([], case r of Ready (Inr n) \<Rightarrow> take n buf | _ \<Rightarrow> []), s'))"
| "plain_step io CopyFlush s = (([], []), snd (poll_flush io s))"
| "plain_step io CopyShutdown s = (([], []), snd (poll_shutdown io s))"

fun plain_run :: "'s stream_ops \<Rightarrow> copy_op list \<Rightarrow> 's \<Rightarrow> (u8 list \<times> u8 list) \<times> 's" where
  "plain_run io [] s = (([], []), s)"
| "plain_run io (x # xs) s =
     (case plain_step io x s of ((up, down), s1) \<Rightarrow>
        (case plain_run io xs s1 of ((ups, downs), s2) \<Rightarrow> ((up @ ups, down @ downs), s2)))"

text \<open>A buffer handed to a read is within its capacity.\<close>

fun copy_op_ok :: "copy_op \<Rightarrow> bool" where
  "copy_op_ok (CopyRead buf) \<longleftrightarrow> length (filled buf) \<le> capacity buf"
| "copy_op_ok _ = True"

section \<open>Counting\<close>

text \<open>
  Adding traffic to the shared state: the effect of a whole run, and its algebra. Zero
  traffic changes nothing, and two amounts add up.
\<close>

definition add_traffic :: "nat \<Rightarrow> u64 \<Rightarrow> u64 \<Rightarrow> 'x shared_scheme \<Rightarrow> 'x shared_scheme" where
  "add_traffic a up down w = meter_client a down (meter_upstream a up w)"

lemma entry_upstream_0 [simp]: "entry_upstream a 0 g = g"
  by (simp add: entry_upstream_def list_update_id)

lemma entry_client_0 [simp]: "entry_client a 0 g = g"
  by (simp add: entry_client_def list_update_id)

lemma meter_0 [simp]: "meter_upstream a 0 w = w" "meter_client a 0 w = w"
  by (simp_all add: meter_upstream_def meter_client_def count_upstream_def count_client_def)

lemma entry_upstream_add: "entry_upstream a n (entry_upstream a m g) = entry_upstream a (m + n) g"
  by (cases "a < length (heap g)")
    (simp_all add: entry_upstream_def fetch_add_assoc list_update_beyond)

lemma entry_client_add: "entry_client a n (entry_client a m g) = entry_client a (m + n) g"
  by (cases "a < length (heap g)")
    (simp_all add: entry_client_def fetch_add_assoc list_update_beyond)

lemma entry_fields_commute:
  "e\<lparr>to_client := x, to_upstream := y\<rparr> = e\<lparr>to_upstream := y, to_client := x\<rparr>"
  by simp

lemma entry_commute: "entry_upstream a n (entry_client a m g) = entry_client a m (entry_upstream a n g)"
  by (cases "a < length (heap g)") (simp_all add: entry_client_def entry_upstream_def list_update_beyond entry_fields_commute)

lemma add_traffic_0 [simp]: "add_traffic a 0 0 w = w"
  by (simp add: add_traffic_def)

lemma add_traffic_add:
  "add_traffic a up' down' (add_traffic a up down w) = add_traffic a (up + up') (down + down') w"
  by (simp add: add_traffic_def meter_client_def meter_upstream_def metrics_defs add.assoc
      entry_commute entry_upstream_add entry_client_add)

context client_stream begin

lemma metered_step_counts:
  assumes "metered_step io a x (s, w) = ((up, down), s', w')" and "copy_op_ok x"
  shows "w' = add_traffic a (of_nat (length up)) (of_nat (length down)) w \<and> sent s' = sent s @ down"
proof (cases x)
  case (CopyRead buf)
  obtain r buf' t where run: "poll_read io buf s = (r, buf', t)" by (metis prod_cases3)
  show ?thesis
  proof (cases "r = Ready (Inr ())")
    case True
    with run assms(2) CopyRead obtain d where d: "filled buf' = filled buf @ d"
      using poll_read_ok [of buf s "()" buf' t] by auto
    define n :: u64 where "n = of_nat (length d)"
    have n: "of_nat (length (filled buf')) - of_nat (length (filled buf)) = n"
      by (simp add: d n_def)
    have "metered_poll_read io a buf s w = (r, buf', t, meter_upstream a n w)"
      using run True by (cases "n = 0") (simp_all add: metered_poll_read_def n word_neq_0_conv)
    with assms(1) CopyRead True d poll_read_sent [OF run] show ?thesis
      by (auto simp: add_traffic_def n_def)
  next
    case False
    then show ?thesis
      using assms(1) CopyRead run poll_read_sent [OF run]
      by (auto simp: metered_poll_read_def Let_def split: poll.splits sum.splits)
  qed
next
  case (CopyWrite buf)
  obtain r t where run: "poll_write io buf s = (r, t)" by fastforce
  show ?thesis
  proof (cases "\<exists>n. r = Ready (Inr n)")
    case True
    then obtain n where r: "r = Ready (Inr n)" ..
    with poll_write_ok run have "n \<le> length buf" "sent t = sent s @ take n buf" by blast+
    with assms(1) CopyWrite run r show ?thesis
      by (auto simp: metered_poll_write_def add_traffic_def min_absorb2)
  next
    case False
    with poll_write_not [OF run] assms(1) CopyWrite run show ?thesis
      by (auto simp: metered_poll_write_def split: poll.splits sum.splits)
  qed
next
  case CopyFlush
  obtain r t where run: "poll_flush io s = (r, t)" by fastforce
  with poll_flush_sent [OF run] assms(1) CopyFlush show ?thesis by (auto simp: metered_poll_flush_def)
next
  case CopyShutdown
  obtain r t where run: "poll_shutdown io s = (r, t)" by fastforce
  with poll_shutdown_sent [OF run] assms(1) CopyShutdown show ?thesis
    by (auto simp: metered_poll_shutdown_def)
qed

lemma metered_run_counts:
  "metered_run io a xs (s, w) = ((up, down), s', w') \<Longrightarrow> list_all copy_op_ok xs \<Longrightarrow>
   w' = add_traffic a (of_nat (length up)) (of_nat (length down)) w \<and> sent s' = sent s @ down"
proof (induction xs arbitrary: s w up down)
  case Nil
  then show ?case by simp
next
  case (Cons x xs)
  obtain up1 down1 s1 w1 where one: "metered_step io a x (s, w) = ((up1, down1), s1, w1)"
    by (metis prod_cases3 surj_pair)
  obtain ups downs where rest: "metered_run io a xs (s1, w1) = ((ups, downs), s', w')"
    and split: "up = up1 @ ups" "down = down1 @ downs"
    using Cons.prems(1) one by (auto split: prod.splits)
  from Cons.prems(2) metered_step_counts [OF one] Cons.IH [OF rest] show ?case
    by (simp add: split add_traffic_add)
qed

end

lemma metered_step_plain:
  assumes "metered_step io a x (s, w) = (t, s', w')"
  shows "plain_step io x s = (t, s')"
  using assms
  by (cases x) (auto simp: metered_poll_read_def metered_poll_write_def metered_poll_flush_def
      metered_poll_shutdown_def Let_def split: prod.splits poll.splits sum.splits if_splits)

lemma metered_run_plain:
  "metered_run io a xs (s, w) = (t, s', w') \<Longrightarrow> plain_run io xs s = (t, s')"
proof (induction xs arbitrary: s w t)
  case (Cons x xs)
  then show ?case by (fastforce split: prod.splits dest!: metered_step_plain)
qed simp

section \<open>Properties\<close>

lemma add_traffic_fields:
  "totals (add_traffic a up down w) = (totals w)\<lparr>bytes_to_upstream := bytes_to_upstream (totals w) + up,
     bytes_to_client := bytes_to_client (totals w) + down\<rparr>"
  "rows (streams (add_traffic a up down w)) = rows (streams w)"
  "length (heap (streams (add_traffic a up down w))) = length (heap (streams w))"
  "next_id (streams (add_traffic a up down w)) = next_id (streams w)"
  by (simp_all add: add_traffic_def meter_upstream_def meter_client_def metrics_defs
      entry_upstream_def entry_client_def)

lemma add_traffic_entry:
  "a < length (heap (streams w)) \<Longrightarrow> b < length (heap (streams w)) \<Longrightarrow>
   heap (streams (add_traffic a up down w)) ! b =
     (if b = a then (heap (streams w) ! a)\<lparr>to_upstream := to_upstream (heap (streams w) ! a) + up,
          to_client := to_client (heap (streams w) ! a) + down\<rparr>
      else heap (streams w) ! b)"
  by (simp add: add_traffic_def meter_upstream_def meter_client_def entry_upstream_def
      entry_client_def fetch_add_def nth_list_update)

text \<open>
  C25. Whatever sequence of polls the copy makes, and however it ends, the process totals
  and the connection's row grow by exactly the number of bytes read from the client and
  written to it (modulo \<open>2\<^sup>6\<^sup>4\<close>); the connect counters and every other row keep their values.
\<close>

theorem metered_counts:
  assumes "client_stream io unread sent" and "list_all copy_op_ok ops"
    and "metered_run io a ops (s, w) = ((up, down), s', w')" and "a < length (heap (streams w))"
  shows "totals w' = (totals w)\<lparr>bytes_to_upstream := bytes_to_upstream (totals w) + of_nat (length up),
      bytes_to_client := bytes_to_client (totals w) + of_nat (length down)\<rparr>
    \<and> to_upstream (heap (streams w') ! a) = to_upstream (heap (streams w) ! a) + of_nat (length up)
    \<and> to_client (heap (streams w') ! a) = to_client (heap (streams w) ! a) + of_nat (length down)
    \<and> (\<forall>b < length (heap (streams w)). b \<noteq> a \<longrightarrow> heap (streams w') ! b = heap (streams w) ! b)
    \<and> sent s' = sent s @ down"
proof -
  have "w' = add_traffic a (of_nat (length up)) (of_nat (length down)) w \<and> sent s' = sent s @ down"
    by (rule client_stream.metered_run_counts [OF assms(1,3,2)])
  with assms(4) show ?thesis by (auto simp: add_traffic_fields add_traffic_entry)
qed

definition example_conn :: "u8 list list \<Rightarrow> conn" where
  "example_conn chunks = \<lparr>rx = chunks, rx_end = None, tx = [], tx_room = 100, tx_err = early_eof\<rparr>"

definition example_shared :: shared where
  "example_shared = \<lparr>totals = new_metrics,
     streams = snd (register 0 default_peer (lit ''a:1'') None new_registry)\<rparr>"

definition example_copy :: "copy_op list" where
  "example_copy = [CopyRead \<lparr>filled = [], capacity = 2\<rparr>, CopyWrite [7, 8], CopyFlush,
     CopyRead \<lparr>filled = [], capacity = 8\<rparr>, CopyShutdown]"

lemma example_copy_run:
  "\<exists>s' w'. metered_run conn_ops 0 example_copy (example_conn [[1, 2, 3]], example_shared)
     = (([1, 2, 3], [7, 8]), s', w')"
  by (simp add: example_copy_def example_conn_def example_shared_def metered_poll_read_def
      metered_poll_write_def metered_poll_flush_def metered_poll_shutdown_def conn_defs)

theorem metered_counts_witness:
  "\<exists>s' w'. metered_run conn_ops 0 example_copy (example_conn [[1, 2, 3]], example_shared)
       = (([1, 2, 3], [7, 8]), s', w')
     \<and> bytes_to_upstream (totals w') = 3 \<and> to_client (heap (streams w') ! 0) = 2"
proof -
  obtain s' w' where run: "metered_run conn_ops 0 example_copy (example_conn [[1, 2, 3]], example_shared)
      = (([1, 2, 3], [7, 8]), s', w')"
    using example_copy_run by blast
  have "list_all copy_op_ok example_copy" by (simp add: example_copy_def)
  moreover have "0 < length (heap (streams example_shared))"
    by (simp add: example_shared_def register_heap)
  ultimately show ?thesis
    using metered_counts [OF conn.client_stream_axioms _ run] run
    by (auto simp: example_shared_def new_metrics_def register_heap new_entry_def new_registry_def)
qed

text \<open>
  C26. The adapter is transparent: every call of the copy sees the bytes it would see on the
  bare stream, and leaves the stream in the same state.
\<close>

theorem metered_transparent:
  "plain_run io ops s = (fst (metered_run io a ops (s, w)), fst (snd (metered_run io a ops (s, w))))"
  by (rule metered_run_plain [where w' = "snd (snd (metered_run io a ops (s, w)))" and w = w and a = a]) simp

end
