(* ===== verification/Net_Parse.thy ===== *)
theory Net_Parse
  imports Net_Addr
begin

text \<open>
  \<open>SocketAddr::from_str\<close> of the standard library on texts of the IPv4 form, the form of the
  address constant of the program: four numbers of at most three digits without leading
  zeros, a colon and a port.
\<close>

definition is_dec :: "rchar \<Rightarrow> bool" where
  "is_dec c \<longleftrightarrow> 48 \<le> c \<and> c \<le> 57"

text \<open>A number below a bound, with the text after it.\<close>

definition read_number :: "nat option \<Rightarrow> bool \<Rightarrow> nat \<Rightarrow> rstr \<Rightarrow> (nat \<times> rstr) option" where
  "read_number max_digits zero_prefix bound s =
     (let ds = takeWhile is_dec s
      in if ds = [] \<or> (case max_digits of Some m \<Rightarrow> m < length ds | None \<Rightarrow> False)
            \<or> bound \<le> numeral_value 10 ds \<or> (\<not> zero_prefix \<and> hd ds = 48 \<and> 1 < length ds)
         then None else Some (numeral_value 10 ds, dropWhile is_dec s))"

fun read_given_char :: "rchar \<Rightarrow> rstr \<Rightarrow> rstr option" where
  "read_given_char c [] = None"
| "read_given_char c (x # s) = (if x = c then Some s else None)"

definition read_octet :: "rstr \<Rightarrow> (u8 \<times> rstr) option" where
  "read_octet s = map_option (\<lambda>(n, r). (of_nat n, r)) (read_number (Some 3) False 256 s)"

definition read_ipv4_addr :: "rstr \<Rightarrow> (ipv4_addr \<times> rstr) option" where
  "read_ipv4_addr s =
     Option.bind (read_octet s) (\<lambda>(a, s). Option.bind (read_given_char 46 s) (\<lambda>s.
     Option.bind (read_octet s) (\<lambda>(b, s). Option.bind (read_given_char 46 s) (\<lambda>s.
     Option.bind (read_octet s) (\<lambda>(c, s). Option.bind (read_given_char 46 s) (\<lambda>s.
     Option.bind (read_octet s) (\<lambda>(d, s). Some (Ipv4 a b c d, s))))))))"

definition parse_socket_v4 :: "rstr \<Rightarrow> socket_addr option" where
  "parse_socket_v4 s =
     Option.bind (read_ipv4_addr s) (\<lambda>(a, s). Option.bind (read_given_char 58 s) (\<lambda>s.
     Option.bind (read_number None True 65536 s) (\<lambda>(p, s).
     if s = [] then Some (SockV4 a (of_nat p)) else None)))"

section \<open>Reading back\<close>

lemma hd_dec: "0 < n \<Longrightarrow> hd (dec n) \<noteq> 48"
  unfolding dec_def
proof (induction n rule: less_induct)
  case (less n)
  show ?case
  proof (cases "n < 10")
    case True
    with less.prems show ?thesis by (simp add: radix.simps digit_char_def)
  next
    case False
    then have "radix 10 n = radix 10 (n div 10) @ [digit_char (n mod 10)]" by (subst radix.simps) simp
    moreover have "hd (radix 10 (n div 10)) \<noteq> 48" using False by (intro less.IH) simp_all
    ultimately show ?thesis by simp
  qed
qed

lemma length_dec_3: "n < 1000 \<Longrightarrow> length (dec n) \<le> 3"
proof -
  assume "n < 1000"
  then have "n div 10 div 10 < 10" by simp
  then show ?thesis unfolding dec_def by (simp add: radix.simps)
qed

lemma dec_0: "dec 0 = [48]"
  by (simp add: dec_def radix.simps digit_char_def)

lemma read_number_dec:
  assumes "n < bound" and "case max_digits of Some m \<Rightarrow> length (dec n) \<le> m | None \<Rightarrow> True"
    and "r = [] \<or> \<not> is_dec (hd r)"
  shows "read_number max_digits z bound (dec n @ r) = Some (n, r)"
proof -
  have digits: "\<forall>c \<in> set (dec n). is_dec c" using dec_digits by (auto simp: is_dec_def)
  have "takeWhile is_dec r = []" "dropWhile is_dec r = r" using assms(3) by (cases r; simp)+
  with digits have "takeWhile is_dec (dec n @ r) = dec n" "dropWhile is_dec (dec n @ r) = r" by simp_all
  moreover have "\<not> (hd (dec n) = 48 \<and> 1 < length (dec n))" using hd_dec [of n] dec_0 by (cases "n = 0") auto
  ultimately show ?thesis using assms(1,2) by (auto simp: read_number_def Let_def split: option.splits)
qed

lemma read_octet_dec: "r = [] \<or> \<not> is_dec (hd r) \<Longrightarrow> read_octet (dec_u8 b @ r) = Some (b, r)"
proof -
  have "unat b < 256" using unsigned_less [of b] by simp
  moreover assume "r = [] \<or> \<not> is_dec (hd r)"
  ultimately show ?thesis
    using length_dec_3 [of "unat b"] by (simp add: read_octet_def dec_u8_def read_number_dec)
qed

lemma read_ipv4_addr_display: "r = [] \<or> \<not> is_dec (hd r) \<Longrightarrow> read_ipv4_addr (ipv4_display a @ r) = Some (a, r)"
proof (cases a)
  case (Ipv4 b c d e)
  assume r: "r = [] \<or> \<not> is_dec (hd r)"
  have dot: "\<not> is_dec (46 :: nat)" by (simp add: is_dec_def)
  have shape: "ipv4_display a @ r = dec_u8 b @ 46 # dec_u8 c @ 46 # dec_u8 d @ 46 # dec_u8 e @ r"
    by (simp add: Ipv4 lit_dot)
  show ?thesis unfolding shape using r dot by (simp add: read_ipv4_addr_def read_octet_dec Ipv4)
qed

lemma parse_socket_v4_display: "parse_socket_v4 (socket_display (SockV4 a p)) = Some (SockV4 a p)"
proof -
  have "socket_display (SockV4 a p) = ipv4_display a @ 58 # dec (unat p)" by (simp add: lit_colon)
  moreover have "unat p < 65536" using unsigned_less [of p] by simp
  then have "read_number None True 65536 (dec (unat p)) = Some (unat p, [])"
    using read_number_dec [of "unat p" 65536 None "[]" True] by simp
  ultimately show ?thesis
    by (simp add: parse_socket_v4_def read_ipv4_addr_display is_dec_def)
qed

end
