(* ===== verification/Config.thy ===== *)
theory Config
  imports Net_Parse
begin

text \<open>
  \<open>config.rs\<close>: the \<open>tor:\<close> section. The YAML reader is a parameter: a document is a
  list of key/value pairs over a type \<open>'y\<close> of YAML values, and a record of decoders
  turns a value into a field's type. What the source states itself, the field names, the
  defaults, the kebab-case variant names and the treatment of an absent file, is modelled.
\<close>

section \<open>Data\<close>

datatype isolation_policy = Shared | PerUpstream | PerQuery

definition default_isolation :: isolation_policy where
  "default_isolation = PerUpstream"

text \<open>
  The policies from the loosest to the strictest; a stricter one never lets more connections
  share circuits (\<open>shares_antimono\<close> in theory \<open>Proxy_System\<close>).
\<close>

fun strictness :: "isolation_policy \<Rightarrow> nat" where
  "strictness Shared = 0"
| "strictness PerUpstream = 1"
| "strictness PerQuery = 2"

instantiation isolation_policy :: linorder
begin

definition less_eq_isolation_policy :: "isolation_policy \<Rightarrow> isolation_policy \<Rightarrow> bool" where
  "less_eq_isolation_policy p q \<longleftrightarrow> strictness p \<le> strictness q"

definition less_isolation_policy :: "isolation_policy \<Rightarrow> isolation_policy \<Rightarrow> bool" where
  "less_isolation_policy p q \<longleftrightarrow> strictness p < strictness q"

instance
proof
  fix p q r :: isolation_policy
  show "p < q \<longleftrightarrow> p \<le> q \<and> \<not> q \<le> p"
    by (auto simp: less_eq_isolation_policy_def less_isolation_policy_def)
  show "p \<le> p" by (simp add: less_eq_isolation_policy_def)
  show "p \<le> q \<Longrightarrow> q \<le> r \<Longrightarrow> p \<le> r" by (simp add: less_eq_isolation_policy_def)
  show "p \<le> q \<Longrightarrow> q \<le> p \<Longrightarrow> p = q"
    by (cases p; cases q) (simp_all add: less_eq_isolation_policy_def)
  show "p \<le> q \<or> q \<le> p" by (auto simp: less_eq_isolation_policy_def)
qed

end

record tor_config =
  enabled :: bool
  socks_listen :: socket_addr
  isolation :: isolation_policy
  state_dir :: rstr
  bootstrap_timeout_secs :: u64
  source_v4 :: "ipv4_addr option"
  source_v6 :: "ipv6_addr option"

definition DEFAULT_SOCKS_LISTEN :: rstr where
  "DEFAULT_SOCKS_LISTEN = lit ''127.0.0.1:9050''"

definition DEFAULT_STATE_DIR :: rstr where
  "DEFAULT_STATE_DIR = lit ''/var/lib/tord''"

definition DEFAULT_BOOTSTRAP_TIMEOUT_SECS :: u64 where
  "DEFAULT_BOOTSTRAP_TIMEOUT_SECS = 120"

text \<open>The constant is parsed; \<open>expect\<close> would panic on the value \<open>None\<close>, which it does not have.\<close>

definition default_socks_listen :: socket_addr where
  "default_socks_listen = the (parse_socket_v4 DEFAULT_SOCKS_LISTEN)"

definition default_config :: tor_config where
  "default_config =
     \<lparr>enabled = False, socks_listen = default_socks_listen, isolation = default_isolation,
      state_dir = DEFAULT_STATE_DIR, bootstrap_timeout_secs = DEFAULT_BOOTSTRAP_TIMEOUT_SECS,
      source_v4 = None, source_v6 = None\<rparr>"

lemma loopback_text: "socket_display (SockV4 (Ipv4 127 0 0 1) 9050) = lit ''127.0.0.1:9050''"
  by (simp add: lit_def dec_u8_def dec_def radix.simps digit_char_def)

lemma default_socks_listen_parses:
  "parse_socket_v4 DEFAULT_SOCKS_LISTEN = Some (SockV4 (Ipv4 127 0 0 1) 9050)"
  unfolding DEFAULT_SOCKS_LISTEN_def loopback_text [symmetric] by (rule parse_socket_v4_display)

lemma default_socks_listen_text: "socket_display default_socks_listen = lit ''127.0.0.1:9050''"
  by (simp only: default_socks_listen_def default_socks_listen_parses option.sel loopback_text)

section \<open>Reading the section\<close>

record 'y yaml_de =
  de_bool :: "'y \<Rightarrow> error + bool"
  de_sock :: "'y \<Rightarrow> error + socket_addr"
  de_variant :: "'y \<Rightarrow> error + rstr"
  de_path :: "'y \<Rightarrow> error + rstr"
  de_u64 :: "'y \<Rightarrow> error + u64"
  de_opt_v4 :: "'y \<Rightarrow> error + ipv4_addr option"
  de_opt_v6 :: "'y \<Rightarrow> error + ipv6_addr option"
  de_opt_map :: "'y \<Rightarrow> error + (rstr \<times> 'y) list option"

text \<open>\<open>rename_all = "kebab-case"\<close> on the variants of \<open>Isolation\<close>.\<close>

definition isolation_of_name :: "rstr \<Rightarrow> error + isolation_policy" where
  "isolation_of_name s =
     (if s = lit ''shared'' then Inr Shared
      else if s = lit ''per-upstream'' then Inr PerUpstream
      else if s = lit ''per-query'' then Inr PerQuery
      else Inl [Foreign s])"

text \<open>The fields seen so far; a field may be given once.\<close>

record partial_config =
  p_enabled :: "bool option"
  p_socks_listen :: "socket_addr option"
  p_isolation :: "isolation_policy option"
  p_state_dir :: "rstr option"
  p_timeout :: "u64 option"
  p_source_v4 :: "ipv4_addr option option"
  p_source_v6 :: "ipv6_addr option option"

definition no_fields :: partial_config where
  "no_fields = \<lparr>p_enabled = None, p_socks_listen = None, p_isolation = None, p_state_dir = None,
     p_timeout = None, p_source_v4 = None, p_source_v6 = None\<rparr>"

definition set_once :: "rstr \<Rightarrow> 'a option \<Rightarrow> error + 'a \<Rightarrow> error + 'a" where
  "set_once name old r = (case old of Some _ \<Rightarrow> Inl [Foreign name] | None \<Rightarrow> r)"

definition visit_field ::
  "'y yaml_de \<Rightarrow> partial_config \<Rightarrow> rstr \<times> 'y \<Rightarrow> error + partial_config" where
  "visit_field de p kv = (case kv of (k, y) \<Rightarrow>
     if k = lit ''enabled'' then
       sum_then (set_once k (p_enabled p) (de_bool de y)) (\<lambda>v. Inr (p\<lparr>p_enabled := Some v\<rparr>))
     else if k = lit ''socks_listen'' then
       sum_then (set_once k (p_socks_listen p) (de_sock de y)) (\<lambda>v. Inr (p\<lparr>p_socks_listen := Some v\<rparr>))
     else if k = lit ''isolation'' then
       sum_then (set_once k (p_isolation p) (sum_then (de_variant de y) isolation_of_name))
         (\<lambda>v. Inr (p\<lparr>p_isolation := Some v\<rparr>))
     else if k = lit ''state_dir'' then
       sum_then (set_once k (p_state_dir p) (de_path de y)) (\<lambda>v. Inr (p\<lparr>p_state_dir := Some v\<rparr>))
     else if k = lit ''bootstrap_timeout_secs'' then
       sum_then (set_once k (p_timeout p) (de_u64 de y)) (\<lambda>v. Inr (p\<lparr>p_timeout := Some v\<rparr>))
     else if k = lit ''source_v4'' then
       sum_then (set_once k (p_source_v4 p) (de_opt_v4 de y)) (\<lambda>v. Inr (p\<lparr>p_source_v4 := Some v\<rparr>))
     else if k = lit ''source_v6'' then
       sum_then (set_once k (p_source_v6 p) (de_opt_v6 de y)) (\<lambda>v. Inr (p\<lparr>p_source_v6 := Some v\<rparr>))
     else Inr p)"

fun visit_map :: "'y yaml_de \<Rightarrow> partial_config \<Rightarrow> (rstr \<times> 'y) list \<Rightarrow> error + partial_config" where
  "visit_map de p [] = Inr p"
| "visit_map de p (kv # kvs) = sum_then (visit_field de p kv) (\<lambda>p'. visit_map de p' kvs)"

definition or_default :: "'a option \<Rightarrow> 'a \<Rightarrow> 'a" where
  "or_default x d = (case x of Some v \<Rightarrow> v | None \<Rightarrow> d)"

definition config_of_partial :: "partial_config \<Rightarrow> tor_config" where
  "config_of_partial p =
     \<lparr>enabled = or_default (p_enabled p) (enabled default_config),
      socks_listen = or_default (p_socks_listen p) (socks_listen default_config),
      isolation = or_default (p_isolation p) (isolation default_config),
      state_dir = or_default (p_state_dir p) (state_dir default_config),
      bootstrap_timeout_secs = or_default (p_timeout p) (bootstrap_timeout_secs default_config),
      source_v4 = or_default (p_source_v4 p) (source_v4 default_config),
      source_v6 = or_default (p_source_v6 p) (source_v6 default_config)\<rparr>"

definition config_of_map :: "'y yaml_de \<Rightarrow> (rstr \<times> 'y) list \<Rightarrow> error + tor_config" where
  "config_of_map de kvs = sum_then (visit_map de no_fields kvs) (\<lambda>p. Inr (config_of_partial p))"

text \<open>\<open>ConfigFile\<close>: one optional key, every other key ignored.\<close>

fun tor_section :: "'y yaml_de \<Rightarrow> tor_config option option \<Rightarrow> (rstr \<times> 'y) list \<Rightarrow>
    error + tor_config option" where
  "tor_section de seen [] = Inr (or_default seen None)"
| "tor_section de seen ((k, y) # doc) =
     (if k = lit ''tor'' then
        sum_then (set_once k seen (sum_then (de_opt_map de y) (\<lambda>m. case m of
            None \<Rightarrow> Inr None
          | Some kvs \<Rightarrow> sum_then (config_of_map de kvs) (\<lambda>c. Inr (Some c)))))
          (\<lambda>v. tor_section de (Some v) doc)
      else tor_section de seen doc)"

text \<open>
  \<open>load\<close>: the outcome of \<open>read_to_string\<close> is an argument, \<open>parse\<close> is the YAML parser.
\<close>

definition load ::
  "'y yaml_de \<Rightarrow> (rstr \<Rightarrow> error + (rstr \<times> 'y) list) \<Rightarrow> rstr \<Rightarrow> io_error + rstr \<Rightarrow>
   error + tor_config option" where
  "load de parse path raw =
     (case raw of
        Inr s \<Rightarrow>
          (case sum_then (parse s) (tor_section de None) of
             Inr c \<Rightarrow> Inr c
           | Inl e \<Rightarrow> Inl (Text (lit ''parsing '' @ path) # e))
      | Inl e \<Rightarrow>
          (if kind e = NotFound then Inr None
           else Inl [Text (lit ''reading '' @ path), IoCause e]))"

section \<open>What a field ends up as\<close>

text \<open>
  The value a field must end up with: the default when its key is absent, the decoded value
  of its key otherwise.
\<close>

definition section_value ::
  "rstr \<Rightarrow> ('y \<Rightarrow> error + 'v) \<Rightarrow> (rstr \<times> 'y) list \<Rightarrow> 'v \<Rightarrow> 'v \<Rightarrow> bool" where
  "section_value name decode kvs dflt v \<longleftrightarrow>
     (case map_of kvs name of None \<Rightarrow> v = dflt | Some y \<Rightarrow> decode y = Inr v)"

text \<open>
  A field of the section, by its name, its slot and its decoder: the step taken for its own
  key fills the empty slot with the decoded value, every other step leaves the slot alone.
\<close>

locale section_field =
  fixes name :: rstr
    and slot :: "partial_config \<Rightarrow> 'v option"
    and decode :: "'y yaml_de \<Rightarrow> 'y \<Rightarrow> error + 'v"
  assumes own_step: "visit_field de p (name, y) = Inr p' \<Longrightarrow>
      slot p = None \<and> (\<exists>v. decode de y = Inr v \<and> slot p' = Some v)"
    and other_step: "k \<noteq> name \<Longrightarrow> visit_field (de :: 'y yaml_de) p (k, y) = Inr p' \<Longrightarrow> slot p' = slot p"
    and start: "slot no_fields = None"
begin

lemma slot_kept:
  "visit_map (de :: 'y yaml_de) p kvs = Inr p' \<Longrightarrow> slot p = Some v \<Longrightarrow> slot p' = Some v \<and> name \<notin> fst ` set kvs"
proof (induction kvs arbitrary: p)
  case Nil
  then show ?case by simp
next
  case (Cons kv kvs)
  obtain k y where kv: "kv = (k, y)" by (cases kv)
  with Cons.prems(1) obtain p1 where p1: "visit_field de p (k, y) = Inr p1" "visit_map de p1 kvs = Inr p'"
    by (auto simp: sum_then_eq_Inr)
  have "k \<noteq> name" using own_step [of de p y p1] p1(1) Cons.prems(2) by auto
  with p1 Cons.prems(2) other_step have "slot p1 = Some v" by metis
  with Cons.IH p1(2) \<open>k \<noteq> name\<close> show ?case by (auto simp: kv)
qed

lemma slot_filled:
  "visit_map de p kvs = Inr p' \<Longrightarrow> slot p = None \<Longrightarrow>
   (case map_of kvs name of None \<Rightarrow> slot p' = None
    | Some y \<Rightarrow> \<exists>v. decode de y = Inr v \<and> slot p' = Some v)"
proof (induction kvs arbitrary: p)
  case Nil
  then show ?case by simp
next
  case (Cons kv kvs)
  obtain k y where kv: "kv = (k, y)" by (cases kv)
  with Cons.prems(1) obtain p1 where p1: "visit_field de p (k, y) = Inr p1" "visit_map de p1 kvs = Inr p'"
    by (auto simp: sum_then_eq_Inr)
  show ?case
  proof (cases "k = name")
    case True
    with own_step p1(1) obtain v where "decode de y = Inr v" "slot p1 = Some v" by blast
    with slot_kept [OF p1(2)] True show ?thesis by (simp add: kv)
  next
    case False
    with other_step p1(1) Cons.prems(2) have "slot p1 = None" by metis
    with Cons.IH [OF p1(2)] False show ?thesis by (simp add: kv)
  qed
qed

lemma slot_or_default:
  "visit_map de no_fields kvs = Inr p \<Longrightarrow>
   section_value name (decode de) kvs dflt (or_default (slot p) dflt)"
  using slot_filled [OF _ start, of de kvs p]
  by (auto simp: section_value_def or_default_def split: option.splits)

end

lemmas visit_field_simps = visit_field_def set_once_def sum_then_eq_Inr

interpretation f_enabled: section_field "lit ''enabled''" p_enabled de_bool
  by unfold_locales (auto simp: visit_field_simps no_fields_def split: option.splits if_splits)

interpretation f_socks_listen: section_field "lit ''socks_listen''" p_socks_listen de_sock
  by unfold_locales (auto simp: visit_field_simps no_fields_def split: option.splits if_splits)

interpretation f_isolation: section_field "lit ''isolation''" p_isolation
    "\<lambda>de y. sum_then (de_variant de y) isolation_of_name"
  by unfold_locales (auto simp: visit_field_simps no_fields_def split: option.splits if_splits)

interpretation f_state_dir: section_field "lit ''state_dir''" p_state_dir de_path
  by unfold_locales (auto simp: visit_field_simps no_fields_def split: option.splits if_splits)

interpretation f_timeout: section_field "lit ''bootstrap_timeout_secs''" p_timeout de_u64
  by unfold_locales (auto simp: visit_field_simps no_fields_def split: option.splits if_splits)

interpretation f_source_v4: section_field "lit ''source_v4''" p_source_v4 de_opt_v4
  by unfold_locales (auto simp: visit_field_simps no_fields_def split: option.splits if_splits)

interpretation f_source_v6: section_field "lit ''source_v6''" p_source_v6 de_opt_v6
  by unfold_locales (auto simp: visit_field_simps no_fields_def split: option.splits if_splits)

text \<open>
  C29. A \<open>tor:\<close> mapping that deserialises gives each field of \<open>TorConfig\<close> the value of its
  own key, and its \<open>Default\<close> when the key is absent; unknown keys change nothing.
\<close>

theorem config_fields:
  assumes "config_of_map de kvs = Inr c"
  shows "section_value (lit ''enabled'') (de_bool de) kvs False (enabled c)
    \<and> section_value (lit ''socks_listen'') (de_sock de) kvs default_socks_listen (socks_listen c)
    \<and> section_value (lit ''isolation'') (\<lambda>y. sum_then (de_variant de y) isolation_of_name) kvs
        PerUpstream (isolation c)
    \<and> section_value (lit ''state_dir'') (de_path de) kvs (lit ''/var/lib/tord'') (state_dir c)
    \<and> section_value (lit ''bootstrap_timeout_secs'') (de_u64 de) kvs 120 (bootstrap_timeout_secs c)
    \<and> section_value (lit ''source_v4'') (de_opt_v4 de) kvs None (source_v4 c)
    \<and> section_value (lit ''source_v6'') (de_opt_v6 de) kvs None (source_v6 c)"
proof -
  from assms obtain p where p: "visit_map de no_fields kvs = Inr p" and c: "c = config_of_partial p"
    by (auto simp: config_of_map_def sum_then_eq_Inr)
  show ?thesis
    unfolding c using f_enabled.slot_or_default [OF p] f_socks_listen.slot_or_default [OF p]
      f_isolation.slot_or_default [OF p] f_state_dir.slot_or_default [OF p]
      f_timeout.slot_or_default [OF p] f_source_v4.slot_or_default [OF p]
      f_source_v6.slot_or_default [OF p]
    by (simp add: config_of_partial_def default_config_def default_isolation_def DEFAULT_STATE_DIR_def
        DEFAULT_BOOTSTRAP_TIMEOUT_SECS_def)
qed

text \<open>A concrete YAML value type and its decoders, for the examples.\<close>

datatype plain_yaml = YBool bool | YStr rstr | YNum nat | YNull | YMap "(rstr \<times> plain_yaml) list"

definition plain_de :: "plain_yaml yaml_de" where
  "plain_de =
     \<lparr>de_bool = (\<lambda>y. case y of YBool b \<Rightarrow> Inr b | _ \<Rightarrow> Inl [Foreign []]),
      de_sock = (\<lambda>y. case y of
         YStr s \<Rightarrow> (if s = lit ''10.0.0.1:9050'' then Inr (SockV4 (Ipv4 10 0 0 1) 9050) else Inl [Foreign s])
       | _ \<Rightarrow> Inl [Foreign []]),
      de_variant = (\<lambda>y. case y of YStr s \<Rightarrow> Inr s | _ \<Rightarrow> Inl [Foreign []]),
      de_path = (\<lambda>y. case y of YStr s \<Rightarrow> Inr s | _ \<Rightarrow> Inl [Foreign []]),
      de_u64 = (\<lambda>y. case y of YNum n \<Rightarrow> if n < 2 ^ 64 then Inr (of_nat n) else Inl [Foreign []]
        | _ \<Rightarrow> Inl [Foreign []]),
      de_opt_v4 = (\<lambda>y. case y of YNull \<Rightarrow> Inr None | _ \<Rightarrow> Inl [Foreign []]),
      de_opt_v6 = (\<lambda>y. case y of YNull \<Rightarrow> Inr None | _ \<Rightarrow> Inl [Foreign []]),
      de_opt_map = (\<lambda>y. case y of YNull \<Rightarrow> Inr None | YMap m \<Rightarrow> Inr (Some m)
        | _ \<Rightarrow> Inl [Foreign []])\<rparr>"

lemmas plain_run = config_of_map_def visit_field_def set_once_def plain_de_def no_fields_def
  isolation_of_name_def config_of_partial_def or_default_def default_config_def default_isolation_def

definition example_section :: "(rstr \<times> plain_yaml) list" where
  "example_section = [(lit ''enabled'', YBool True), (lit ''unknown'', YNull),
     (lit ''isolation'', YStr (lit ''per-query''))]"

lemma example_section_read:
  "config_of_map plain_de example_section
     = Inr (default_config\<lparr>enabled := True, isolation := PerQuery\<rparr>)"
  by (simp add: plain_run example_section_def)

theorem config_fields_witness:
  "config_of_map plain_de example_section = Inr (default_config\<lparr>enabled := True, isolation := PerQuery\<rparr>)
   \<and> section_value (lit ''isolation'') (\<lambda>y. sum_then (de_variant plain_de y) isolation_of_name)
       example_section PerUpstream PerQuery"
  using config_fields [OF example_section_read] example_section_read by simp

text \<open>
  Loading the configuration: an absent file and a document without a \<open>tor:\<close> key both
  mean there is nothing to do; any other read error, and a document that does not parse,
  is an error that names the path.
\<close>

theorem load_outcomes:
  "load de parse path (Inl (IoError NotFound d)) = Inr None
   \<and> (k \<noteq> NotFound \<longrightarrow> load de parse path (Inl (IoError k d))
        = Inl [Text (lit ''reading '' @ path), IoCause (IoError k d)])
   \<and> (parse s = Inl e \<longrightarrow> load de parse path (Inr s) = Inl (Text (lit ''parsing '' @ path) # e))
   \<and> (parse s = Inr doc \<longrightarrow> lit ''tor'' \<notin> fst ` set doc \<longrightarrow> load de parse path (Inr s) = Inr None)"
proof -
  have "lit ''tor'' \<notin> fst ` set doc \<Longrightarrow> tor_section de None doc = Inr None"
    by (induction de "None :: tor_config option option" doc rule: tor_section.induct)
      (auto simp: or_default_def)
  then show ?thesis by (simp add: load_def)
qed

theorem load_outcomes_witness:
  "load plain_de (\<lambda>s. Inr [(lit ''system'', YNull)]) (lit ''t.yaml'') (Inr (lit ''system: {}'')) = Inr None"
proof -
  have "lit ''tor'' \<notin> fst ` set [(lit ''system'', YNull)]" by simp
  then show ?thesis
    using load_outcomes [of plain_de "\<lambda>s. Inr [(lit ''system'', YNull)]" "lit ''t.yaml''"
        "[]" NotFound "lit ''system: {}''" "[]" "[(lit ''system'', YNull)]"]
    by blast
qed

end
