(* ===== verification/Tor.thy ===== *)
theory Tor
  imports Config Hash_Map
begin

text \<open>
  \<open>tor.rs\<close>: the Tor manager. arti is a parameter: \<open>fresh n\<close> is the token of the
  \<open>n\<close>-th call of \<open>IsolationToken::new\<close>, which promises to differ from every other
  (\<open>inj fresh\<close>); building the client and opening a stream are functions of their
  arguments. Modelled are the isolation policy, the username map, the directories and the
  bounded bootstrap.
\<close>

section \<open>The manager\<close>

record ('tok, 'client) tor_manager =
  client :: 'client
  policy :: isolation_policy
  default_token :: 'tok
  per_upstream :: "(rstr, 'tok) hashmap"
  tokens_drawn :: nat

text \<open>\<open>Path::join\<close> with a relative component.\<close>

definition path_join :: "rstr \<Rightarrow> rstr \<Rightarrow> rstr" where
  "path_join p c = (if p = [] then c else if last p = 47 then p @ c else p @ lit ''/'' @ c)"

definition build_arti_config :: "(rstr \<Rightarrow> rstr \<Rightarrow> error + 'cfg) \<Rightarrow> tor_config \<Rightarrow> error + 'cfg" where
  "build_arti_config build cfg =
     (case build (path_join (state_dir cfg) (lit ''state'')) (path_join (state_dir cfg) (lit ''cache'')) of
        Inl e \<Rightarrow> Inl (Text (lit ''building arti TorClientConfig'') # e)
      | Inr c \<Rightarrow> Inr c)"

definition new_manager ::
  "(nat \<Rightarrow> 'tok) \<Rightarrow> (rstr \<Rightarrow> rstr \<Rightarrow> error + 'cfg) \<Rightarrow> ('cfg \<Rightarrow> error + 'client) \<Rightarrow> nat \<Rightarrow> tor_config \<Rightarrow>
   error + ('tok, 'client) tor_manager" where
  "new_manager fresh build create drawn cfg =
     sum_then (build_arti_config build cfg) (\<lambda>arti_cfg.
       case create arti_cfg of
         Inl e \<Rightarrow> Inl (Text (lit ''building the Tor client'') # e)
       | Inr c \<Rightarrow> Inr \<lparr>client = c, policy = isolation cfg, default_token = fresh drawn,
                     per_upstream = hm_new, tokens_drawn = Suc drawn\<rparr>)"

definition isolation_token ::
  "(nat \<Rightarrow> 'tok) \<Rightarrow> rstr option \<Rightarrow> ('tok, 'client) tor_manager \<Rightarrow> 'tok \<times> ('tok, 'client) tor_manager" where
  "isolation_token fresh user m =
     (case policy m of
        Shared \<Rightarrow> (default_token m, m)
      | PerQuery \<Rightarrow> (fresh (tokens_drawn m), m\<lparr>tokens_drawn := Suc (tokens_drawn m)\<rparr>)
      | PerUpstream \<Rightarrow>
          (case user of
             None \<Rightarrow> (default_token m, m)
           | Some u \<Rightarrow>
               (case hm_get (per_upstream m) u of
                  Some t \<Rightarrow> (t, m)
                | None \<Rightarrow>
                    (let t = fresh (tokens_drawn m)
                     in (t, m\<lparr>per_upstream := hm_insert u t (per_upstream m),
                              tokens_drawn := Suc (tokens_drawn m)\<rparr>)))))"

text \<open>
  \<open>connect\<close> up to its suspension inside arti fixes the token of the stream; arti's answer
  is passed on, an error with a context.
\<close>

definition connect_result :: "error + 'up \<Rightarrow> error + 'up" where
  "connect_result r = (case r of Inl e \<Rightarrow> Inl (Text (lit ''opening anonymised Tor stream'') # e) | Inr s \<Rightarrow> Inr s)"

definition connect ::
  "(nat \<Rightarrow> 'tok) \<Rightarrow> ('client \<Rightarrow> rstr \<times> u16 \<Rightarrow> 'tok \<Rightarrow> error + 'up) \<Rightarrow> rstr \<times> u16 \<Rightarrow> rstr option \<Rightarrow>
   ('tok, 'client) tor_manager \<Rightarrow> (error + 'up) \<times> ('tok, 'client) tor_manager" where
  "connect fresh connect_with_prefs addr user m =
     (let (t, m') = isolation_token fresh user m
      in (connect_result (connect_with_prefs (client m) addr t), m'))"

text \<open>\<open>{:?}\<close> of a duration of whole seconds.\<close>

definition duration_debug :: "nat \<Rightarrow> rstr" where
  "duration_debug secs = (if secs = 0 then lit ''0ns'' else dec secs @ lit ''s'')"

text \<open>\<open>tokio::time::timeout\<close> either elapses or yields what arti's bootstrap returned.\<close>

datatype 'a timed = Elapsed | Finished 'a

definition bootstrap :: "nat \<Rightarrow> (error + unit) timed \<Rightarrow> error + unit" where
  "bootstrap timeout_secs outcome =
     (case outcome of
        Elapsed \<Rightarrow> Inl [Text (lit ''Tor bootstrap did not finish within '' @ duration_debug timeout_secs)]
      | Finished (Inl e) \<Rightarrow> Inl (Text (lit ''Tor bootstrap'') # e)
      | Finished (Inr u) \<Rightarrow> Inr u)"

section \<open>The token invariant\<close>

text \<open>Every token in use was drawn from the supply, and the map never repeats one.\<close>

definition manager_wf :: "(nat \<Rightarrow> 'tok) \<Rightarrow> ('tok, 'client) tor_manager \<Rightarrow> bool" where
  "manager_wf fresh m \<longleftrightarrow> hm_wf (per_upstream m) \<and> default_token m \<in> fresh ` {..<tokens_drawn m} \<and>
     (\<forall>u t. hm_get (per_upstream m) u = Some t \<longrightarrow>
        t \<in> fresh ` {..<tokens_drawn m} \<and> t \<noteq> default_token m) \<and>
     (\<forall>u v t. hm_get (per_upstream m) u = Some t \<longrightarrow> hm_get (per_upstream m) v = Some t \<longrightarrow> u = v)"

text \<open>The token a user has at present under \<open>PerUpstream\<close>.\<close>

definition token_of :: "('tok, 'client) tor_manager \<Rightarrow> rstr option \<Rightarrow> 'tok option" where
  "token_of m user = (case user of None \<Rightarrow> Some (default_token m) | Some u \<Rightarrow> hm_get (per_upstream m) u)"

lemma new_manager_wf:
  "new_manager fresh build create drawn cfg = Inr m \<Longrightarrow> manager_wf fresh m \<and> policy m = isolation cfg"
  by (cases "build_arti_config build cfg"; cases "create (projr (build_arti_config build cfg))")
    (auto simp: new_manager_def manager_wf_def hm.map_laws)

lemma isolation_token_policy [simp]: "policy (snd (isolation_token fresh user m)) = policy m"
  by (simp add: isolation_token_def Let_def split: isolation_policy.split option.split)

lemma isolation_token_default [simp]:
  "default_token (snd (isolation_token fresh user m)) = default_token m"
  by (simp add: isolation_token_def Let_def split: isolation_policy.split option.split)

lemma fresh_unused:
  "inj fresh \<Longrightarrow> fresh n \<notin> fresh ` {..<n::nat}"
  by (simp add: inj_image_mem_iff)

lemma drawn_mono: "t \<in> fresh ` {..<n::nat} \<Longrightarrow> t \<in> fresh ` {..<Suc n}"
  by auto

lemma manager_wf_insert:
  assumes "inj fresh" and "manager_wf fresh m" and "hm_get (per_upstream m) u = None"
  shows "manager_wf fresh (m\<lparr>per_upstream := hm_insert u (fresh (tokens_drawn m)) (per_upstream m),
           tokens_drawn := Suc (tokens_drawn m)\<rparr>)"
  using assms(2) fresh_unused [OF assms(1), of "tokens_drawn m"]
  unfolding manager_wf_def by (auto simp: hm.map_laws intro: drawn_mono split: if_splits)

lemma isolation_token_wf:
  assumes "inj fresh" and "manager_wf fresh m"
  shows "manager_wf fresh (snd (isolation_token fresh user m))"
proof -
  have "manager_wf fresh (m\<lparr>tokens_drawn := Suc (tokens_drawn m)\<rparr>)"
    using assms(2) by (auto simp: manager_wf_def intro: drawn_mono)
  then show ?thesis
    using assms manager_wf_insert [OF assms]
    by (simp add: isolation_token_def Let_def split: isolation_policy.split option.split)
qed

lemma token_of_inject:
  "manager_wf fresh m \<Longrightarrow> token_of m u = Some t \<Longrightarrow> token_of m v = Some t \<Longrightarrow> u = v"
  unfolding manager_wf_def token_of_def by (auto split: option.splits)

lemma isolation_token_of:
  "manager_wf fresh m \<Longrightarrow> policy m = PerUpstream \<Longrightarrow>
   token_of (snd (isolation_token fresh user m)) user = Some (fst (isolation_token fresh user m))"
  by (auto simp: isolation_token_def token_of_def Let_def manager_wf_def hm.map_laws split: option.split)

lemma token_of_kept:
  "manager_wf fresh m \<Longrightarrow> token_of m v = Some t \<Longrightarrow> token_of (snd (isolation_token fresh user m)) v = Some t"
  by (auto simp: isolation_token_def token_of_def Let_def manager_wf_def hm.map_laws
      split: isolation_policy.split option.splits)

section \<open>A sequence of connects\<close>

fun token_run ::
  "(nat \<Rightarrow> 'tok) \<Rightarrow> rstr option list \<Rightarrow> ('tok, 'client) tor_manager \<Rightarrow> 'tok list \<times> ('tok, 'client) tor_manager" where
  "token_run fresh [] m = ([], m)"
| "token_run fresh (u # us) m =
     (case isolation_token fresh u m of (t, m1) \<Rightarrow>
        (case token_run fresh us m1 of (ts, m2) \<Rightarrow> (t # ts, m2)))"

text \<open>When two connects may share circuits, by the documentation of \<open>Isolation\<close>.\<close>

definition may_share :: "isolation_policy \<Rightarrow> rstr option list \<Rightarrow> nat \<Rightarrow> nat \<Rightarrow> bool" where
  "may_share p us i j =
     (case p of Shared \<Rightarrow> True | PerUpstream \<Rightarrow> us ! i = us ! j | PerQuery \<Rightarrow> i = j)"

lemma token_run_Cons [simp]:
  "fst (token_run fresh (u # us) m) = fst (isolation_token fresh u m) #
     fst (token_run fresh us (snd (isolation_token fresh u m)))"
  "snd (token_run fresh (u # us) m) = snd (token_run fresh us (snd (isolation_token fresh u m)))"
  by (simp_all split: prod.split)

declare token_run.simps(2) [simp del]

lemma token_run_length [simp]: "length (fst (token_run fresh us m)) = length us"
  by (induction us arbitrary: m) simp_all

lemma token_run_wf:
  "inj fresh \<Longrightarrow> manager_wf fresh m \<Longrightarrow> manager_wf fresh (snd (token_run fresh us m))"
  by (induction us arbitrary: m) (simp_all add: isolation_token_wf)

lemma token_run_shared:
  "policy m = Shared \<Longrightarrow> fst (token_run fresh us m) = replicate (length us) (default_token m)"
  by (induction us arbitrary: m) (simp_all add: isolation_token_def)

lemma token_run_per_query:
  "policy m = PerQuery \<Longrightarrow>
   fst (token_run fresh us m) = map fresh [tokens_drawn m..<tokens_drawn m + length us]"
proof (induction us arbitrary: m)
  case (Cons u us)
  from Cons.IH [of "m\<lparr>tokens_drawn := Suc (tokens_drawn m)\<rparr>"] Cons.prems show ?case
    by (simp add: isolation_token_def upt_conv_Cons del: upt_Suc)
qed simp

lemma token_run_kept:
  "inj fresh \<Longrightarrow> manager_wf fresh m \<Longrightarrow> token_of m v = Some t \<Longrightarrow>
   token_of (snd (token_run fresh us m)) v = Some t"
  by (induction us arbitrary: m) (simp_all add: isolation_token_wf token_of_kept)

lemma token_run_per_upstream:
  "inj fresh \<Longrightarrow> manager_wf fresh m \<Longrightarrow> policy m = PerUpstream \<Longrightarrow> i < length us \<Longrightarrow>
   token_of (snd (token_run fresh us m)) (us ! i) = Some (fst (token_run fresh us m) ! i)"
proof (induction us arbitrary: m i)
  case (Cons u us)
  let ?m1 = "snd (isolation_token fresh u m)"
  have wf1: "manager_wf fresh ?m1" using isolation_token_wf Cons.prems(1,2) by blast
  have "token_of (snd (token_run fresh us ?m1)) u = Some (fst (isolation_token fresh u m))"
    using token_run_kept [OF Cons.prems(1) wf1 isolation_token_of] Cons.prems by blast
  moreover have "token_of (snd (token_run fresh us ?m1)) (us ! j) = Some (fst (token_run fresh us ?m1) ! j)"
    if "j < length us" for j
    using Cons.IH [OF Cons.prems(1) wf1 _ that] Cons.prems(3) by simp
  ultimately show ?case using Cons.prems(4) by (cases i) simp_all
qed simp

text \<open>
  Circuit isolation: over any sequence of connects, two streams get the same token
  exactly when the configured policy lets them share circuits. \<open>Shared\<close>: always;
  \<open>PerUpstream\<close>: when their usernames (or lack of one) agree; \<open>PerQuery\<close>: never.
\<close>

theorem isolation_policy_enforced:
  assumes "inj fresh" and "manager_wf fresh m" and "i < length us" and "j < length us"
  shows "fst (token_run fresh us m) ! i = fst (token_run fresh us m) ! j \<longleftrightarrow> may_share (policy m) us i j"
proof (cases "policy m")
  case Shared
  with assms show ?thesis by (simp add: token_run_shared may_share_def)
next
  case PerQuery
  with assms show ?thesis by (auto simp: token_run_per_query may_share_def dest: injD)
next
  case PerUpstream
  note tok = token_run_per_upstream [OF assms(1,2) PerUpstream]
  have "us ! i = us ! j" if "fst (token_run fresh us m) ! i = fst (token_run fresh us m) ! j"
    using token_of_inject [OF token_run_wf [OF assms(1,2)]] tok [OF assms(3)] tok [OF assms(4)] that
    by metis
  moreover have "fst (token_run fresh us m) ! i = fst (token_run fresh us m) ! j" if "us ! i = us ! j"
    using tok [OF assms(3)] tok [OF assms(4)] that by simp
  ultimately show ?thesis using PerUpstream by (auto simp: may_share_def)
qed

definition example_manager :: "isolation_policy \<Rightarrow> (nat, unit) tor_manager" where
  "example_manager p = \<lparr>client = (), policy = p, default_token = 0, per_upstream = hm_new, tokens_drawn = 1\<rparr>"

lemma example_manager_wf: "manager_wf id (example_manager p)"
  by (simp add: manager_wf_def example_manager_def hm.map_laws)

theorem isolation_policy_enforced_witness:
  "fst (token_run id [Some (lit ''dns''), None, Some (lit ''web'')] (example_manager PerUpstream)) ! 0
   \<noteq> fst (token_run id [Some (lit ''dns''), None, Some (lit ''web'')] (example_manager PerUpstream)) ! 2"
  using isolation_policy_enforced [OF inj_on_id example_manager_wf,
      of 0 "[Some (lit ''dns''), None, Some (lit ''web'')]" 2 PerUpstream]
  by (simp add: may_share_def example_manager_def)

end
