(* ===== verification/Logging.thy ===== *)
theory Logging
  imports Config
begin

text \<open>
  What the program prints and logs: lines of standard output and structured log lines, with
  their severity, message and fields, and the filter the subscriber of \<open>main.rs\<close> puts on them.
\<close>

section \<open>Severities\<close>

datatype severity = SevError | SevWarn | SevInfo | SevDebug

text \<open>The more verbose a level, the greater it is.\<close>

fun verbosity :: "severity \<Rightarrow> nat" where
  "verbosity SevError = 0"
| "verbosity SevWarn = 1"
| "verbosity SevInfo = 2"
| "verbosity SevDebug = 3"

instantiation severity :: linorder
begin

definition less_eq_severity :: "severity \<Rightarrow> severity \<Rightarrow> bool" where
  "less_eq_severity a b \<longleftrightarrow> verbosity a \<le> verbosity b"

definition less_severity :: "severity \<Rightarrow> severity \<Rightarrow> bool" where
  "less_severity a b \<longleftrightarrow> verbosity a < verbosity b"

instance
proof
  fix a b c :: severity
  show "a < b \<longleftrightarrow> a \<le> b \<and> \<not> b \<le> a" by (auto simp: less_eq_severity_def less_severity_def)
  show "a \<le> a" by (simp add: less_eq_severity_def)
  show "a \<le> b \<Longrightarrow> b \<le> c \<Longrightarrow> a \<le> c" by (simp add: less_eq_severity_def)
  show "a \<le> b \<Longrightarrow> b \<le> a \<Longrightarrow> a = b" by (cases a; cases b) (simp_all add: less_eq_severity_def)
  show "a \<le> b \<or> b \<le> a" by (auto simp: less_eq_severity_def)
qed

end

section \<open>Lines\<close>

text \<open>
  The fields of the log lines, by their content. An error field shows the outermost cause of
  the error only: \<open>%e\<close> is its \<open>Display\<close>.
\<close>

datatype log_field =
    PeerField socket_addr
  | TargetField rstr
  | UserField "rstr option"
  | ErrorField cause
  | ListenField socket_addr
  | PolicyField isolation_policy
  | SocketField rstr
  | StateDirField rstr
  | ConfigField tor_config

datatype event = Printed rstr | Logged severity rstr "log_field list"

definition outermost :: "error \<Rightarrow> cause" where
  "outermost e = (case e of [] \<Rightarrow> Text [] | c # _ \<Rightarrow> c)"

definition error_field :: "error \<Rightarrow> log_field" where
  "error_field e = ErrorField (outermost e)"

lemma outermost_Cons [simp]: "outermost (c # e) = c"
  by (simp add: outermost_def)

text \<open>The em dash of the messages.\<close>

definition dash :: rstr where
  "dash = [32, 0x2014, 32]"

section \<open>The subscriber\<close>

text \<open>
  A filter says which levels of the program's lines are kept. That of the environment is
  used if there is one that parses, otherwise the filter \<open>info\<close>.
\<close>

type_synonym log_filter = "severity \<Rightarrow> bool"

definition info_filter :: log_filter where
  "info_filter s \<longleftrightarrow> s \<le> SevInfo"

definition subscriber_filter :: "unit + log_filter \<Rightarrow> log_filter" where
  "subscriber_filter from_env = (case from_env of Inr f \<Rightarrow> f | Inl _ \<Rightarrow> info_filter)"

fun shown :: "log_filter \<Rightarrow> event \<Rightarrow> bool" where
  "shown f (Printed s) = True"
| "shown f (Logged sev msg fs) = f sev"

abbreviation visible :: "log_filter \<Rightarrow> event list \<Rightarrow> event list" where
  "visible f \<equiv> filter (shown f)"

lemma info_filter_simps [simp]:
  "info_filter SevError" "info_filter SevWarn" "info_filter SevInfo" "\<not> info_filter SevDebug"
  by (simp_all add: info_filter_def less_eq_severity_def)

end
