(* ===== verification/Socks_Server.thy ===== *)
theory Socks_Server
  imports Metered Tor Logging
begin

text \<open>
  \<open>socks/server.rs\<close>: the SOCKS5 front door. Each piece of \<open>handle\<close> between two effects on
  shared state is a definition of its own: the negotiation with the client, the opening of
  a row and of a token, the two answers to the client, the splice; \<open>handle\<close> composes them.
\<close>

section \<open>Constants\<close>

definition SOCKS5 :: u8 where "SOCKS5 = 0x05"
definition METHOD_NOAUTH :: u8 where "METHOD_NOAUTH = 0x00"
definition METHOD_USERPASS :: u8 where "METHOD_USERPASS = 0x02"
definition METHOD_NONE :: u8 where "METHOD_NONE = 0xff"
definition AUTH_USERPASS_VER :: u8 where "AUTH_USERPASS_VER = 0x01"
definition CMD_CONNECT :: u8 where "CMD_CONNECT = 0x01"
definition REP_SUCCESS :: u8 where "REP_SUCCESS = 0x00"
definition REP_GENERAL_FAILURE :: u8 where "REP_GENERAL_FAILURE = 0x01"
definition REP_CMD_NOT_SUPPORTED :: u8 where "REP_CMD_NOT_SUPPORTED = 0x07"
definition REP_ATYP_NOT_SUPPORTED :: u8 where "REP_ATYP_NOT_SUPPORTED = 0x08"
definition ATYP_IPV4 :: u8 where "ATYP_IPV4 = 0x01"
definition ATYP_DOMAIN :: u8 where "ATYP_DOMAIN = 0x03"
definition ATYP_IPV6 :: u8 where "ATYP_IPV6 = 0x04"

lemmas socks_consts = SOCKS5_def METHOD_NOAUTH_def METHOD_USERPASS_def METHOD_NONE_def
  AUTH_USERPASS_VER_def CMD_CONNECT_def REP_SUCCESS_def REP_GENERAL_FAILURE_def
  REP_CMD_NOT_SUPPORTED_def REP_ATYP_NOT_SUPPORTED_def ATYP_IPV4_def ATYP_DOMAIN_def ATYP_IPV6_def

section \<open>Talking to the client\<close>

definition dec_byte :: "u8 \<Rightarrow> rstr" where
  "dec_byte b = dec (unat b)"

definition read_userpass :: "'s stream_ops \<Rightarrow> ('s, rstr) prog" where
  "read_userpass io =
     and_then (with_context (lit ''reading RFC1929 auth version'') (lift_io (read_exact io 1))) (\<lambda>ver.
     if ver ! 0 \<noteq> AUTH_USERPASS_VER
     then bail (lit ''bad RFC1929 auth version '' @ dec_byte (ver ! 0))
     else
       and_then (lift_io (read_exact io 1)) (\<lambda>ulen.
       and_then (lift_io (read_exact io (unat (ulen ! 0)))) (\<lambda>uname.
       and_then (lift_io (read_exact io 1)) (\<lambda>plen.
       and_then (lift_io (read_exact io (unat (plen ! 0)))) (\<lambda>passwd.
       case from_utf8 uname of
         Some u \<Rightarrow> ret u
       | None \<Rightarrow> throw [Text (lit ''SOCKS username is not UTF-8''), Utf8Cause])))))"

fun ipv4_of :: "u8 list \<Rightarrow> ipv4_addr" where
  "ipv4_of [a, b, c, d] = Ipv4 a b c d"
| "ipv4_of _ = Ipv4 0 0 0 0"

definition read_target :: "'s stream_ops \<Rightarrow> u8 \<Rightarrow> ('s, rstr \<times> u16) prog" where
  "read_target io atyp =
     and_then
       (if atyp = ATYP_IPV4 then
          and_then (lift_io (read_exact io 4)) (\<lambda>a. ret (ipv4_display (ipv4_of a)))
        else if atyp = ATYP_IPV6 then
          and_then (lift_io (read_exact io 16)) (\<lambda>a. ret (ipv6_display (Ipv6 a)))
        else if atyp = ATYP_DOMAIN then
          and_then (lift_io (read_exact io 1)) (\<lambda>len.
          and_then (lift_io (read_exact io (unat (len ! 0)))) (\<lambda>name.
          case from_utf8 name of
            Some h \<Rightarrow> ret h
          | None \<Rightarrow> throw [Text (lit ''SOCKS domain name is not UTF-8''), Utf8Cause]))
        else bail (lit ''unsupported SOCKS address type '' @ dec_byte atyp)) (\<lambda>host.
     and_then (lift_io (read_exact io 2)) (\<lambda>port.
     ret (host, of_nat (be16 (port ! 0) (port ! 1)))))"

definition reply_bytes :: "u8 \<Rightarrow> u8 list" where
  "reply_bytes rep = [SOCKS5, rep, 0x00, ATYP_IPV4, 0, 0, 0, 0, 0, 0]"

definition send_reply :: "'s stream_ops \<Rightarrow> u8 \<Rightarrow> ('s, unit) prog" where
  "send_reply io rep = lift_io (write_all io (reply_bytes rep))"

text \<open>Method negotiation: the username if the client offered user/password, else none.\<close>

definition negotiate_method :: "'s stream_ops \<Rightarrow> ('s, rstr option) prog" where
  "negotiate_method io =
     and_then (with_context (lit ''reading SOCKS greeting'') (lift_io (read_exact io 2))) (\<lambda>greeting.
     if greeting ! 0 \<noteq> SOCKS5
     then bail (lit ''not a SOCKS5 client (version '' @ dec_byte (greeting ! 0) @ lit '')'')
     else
       and_then (with_context (lit ''reading SOCKS auth methods'')
         (lift_io (read_exact io (unat (greeting ! 1))))) (\<lambda>methods.
       if METHOD_USERPASS \<in> set methods then
         and_then (lift_io (write_all io [SOCKS5, METHOD_USERPASS])) (\<lambda>_.
         and_then (read_userpass io) (\<lambda>user.
         and_then (lift_io (write_all io [AUTH_USERPASS_VER, REP_SUCCESS])) (\<lambda>_.
         ret (Some user))))
       else if METHOD_NOAUTH \<in> set methods then
         and_then (lift_io (write_all io [SOCKS5, METHOD_NOAUTH])) (\<lambda>_. ret None)
       else
         and_then (lift_io (write_all io [SOCKS5, METHOD_NONE])) (\<lambda>_.
         bail (lit ''client offered no acceptable SOCKS auth method''))))"

definition read_request :: "'s stream_ops \<Rightarrow> ('s, rstr \<times> u16) prog" where
  "read_request io =
     and_then (with_context (lit ''reading SOCKS request'') (lift_io (read_exact io 4))) (\<lambda>req.
     if req ! 0 \<noteq> SOCKS5
     then bail (lit ''bad SOCKS request version '' @ dec_byte (req ! 0))
     else if req ! 1 \<noteq> CMD_CONNECT then
       and_then (send_reply io REP_CMD_NOT_SUPPORTED) (\<lambda>_.
       bail (lit ''unsupported SOCKS command '' @ dec_byte (req ! 1) @ lit '' (only CONNECT)''))
     else
       catch (read_target io (req ! 3)) (\<lambda>e.
         and_then (send_reply io REP_ATYP_NOT_SUPPORTED) (\<lambda>_. throw e)))"

definition handshake :: "'s stream_ops \<Rightarrow> ('s, rstr \<times> u16 \<times> rstr option) prog" where
  "handshake io =
     and_then (negotiate_method io) (\<lambda>user.
     and_then (read_request io) (\<lambda>(host, port).
     ret (host, port, user)))"

section \<open>The connection\<close>

record ('tok, 'client) world = shared +
  tor :: "('tok, 'client) tor_manager"
  clock :: nat

text \<open>\<open>SocksServer::new\<close>, at a time of the clock.\<close>

definition new_server :: "('tok, 'client) tor_manager \<Rightarrow> metrics \<Rightarrow> registry \<Rightarrow> nat \<Rightarrow> ('tok, 'client) world" where
  "new_server m ms g now = \<lparr>totals = ms, streams = g, tor = m, clock = now\<rparr>"

definition target_text :: "rstr \<Rightarrow> u16 \<Rightarrow> rstr" where
  "target_text host port = host @ lit '':'' @ dec (unat port)"

text \<open>
  Up to the suspension inside arti, without another task in between: count the attempt,
  register the row, resolve the isolation token.
\<close>

definition begin_connect ::
  "(nat \<Rightarrow> 'tok) \<Rightarrow> socket_addr \<Rightarrow> rstr \<Rightarrow> u16 \<Rightarrow> rstr option \<Rightarrow> ('tok, 'client) world \<Rightarrow>
   (nat \<times> 'tok) \<times> ('tok, 'client) world" where
  "begin_connect fresh peer host port user w =
     (let (a, g) = register (clock w) peer (target_text host port) user (streams w);
          (t, m) = isolation_token fresh user (tor w)
      in ((a, t), w\<lparr>totals := count_connect (totals w), streams := g, tor := m\<rparr>))"

definition fail_closed_text :: rstr where
  "fail_closed_text = lit ''Tor CONNECT failed '' @ [0x2014] @ lit '' failing closed''"

definition tor_failed ::
  "'s stream_ops \<Rightarrow> error \<Rightarrow> 's \<Rightarrow> ('tok, 'client) world \<Rightarrow> (error + unit) \<times> 's \<times> ('tok, 'client) world" where
  "tor_failed io e s w =
     (let w1 = w\<lparr>totals := count_failed (totals w)\<rparr>
      in case send_reply io REP_GENERAL_FAILURE s of
           (Inl e', s') \<Rightarrow> (Inl e', s', w1)
         | (Inr _, s') \<Rightarrow> (Inl (Text fail_closed_text # e), s', w1))"

definition tor_connected ::
  "'s stream_ops \<Rightarrow> 's \<Rightarrow> ('tok, 'client) world \<Rightarrow> (error + unit) \<times> 's \<times> ('tok, 'client) world" where
  "tor_connected io s w =
     (case send_reply io REP_SUCCESS s of
        (Inl e', s') \<Rightarrow> (Inl e', s', w)
      | (Inr _, s') \<Rightarrow> (Inr (), s', w\<lparr>totals := count_ok (totals w)\<rparr>))"

text \<open>
  The splice: \<open>copy_bidirectional\<close> makes poll calls on the metered client and returns.
\<close>

definition splice_result :: "io_error + unit \<Rightarrow> error + unit" where
  "splice_result r = (case r of Inl e \<Rightarrow> Inl [Text (lit ''proxying SOCKS stream''), IoCause e] | Inr u \<Rightarrow> Inr u)"

definition proxy ::
  "'s stream_ops \<Rightarrow> ('up \<Rightarrow> 's \<Rightarrow> copy_op list \<times> (io_error + unit)) \<Rightarrow> nat \<Rightarrow> error + 'up \<Rightarrow> 's \<Rightarrow>
   ('tok, 'client) world \<Rightarrow> (error + unit) \<times> 's \<times> ('tok, 'client) world" where
  "proxy io copy a r s w =
     (case r of
        Inl e \<Rightarrow> tor_failed io e s w
      | Inr up \<Rightarrow>
          (case tor_connected io s w of
             (Inl e, s1, w1) \<Rightarrow> (Inl e, s1, w1)
           | (Inr _, s1, w1) \<Rightarrow>
               (let (ops, res) = copy up s1; (_, s2, w2) = metered_run io a ops (s1, w1)
                in (splice_result res, s2, w2))))"

text \<open>The row goes away with its handle when the function returns, however it returns.\<close>

definition handle ::
  "'s stream_ops \<Rightarrow> (nat \<Rightarrow> 'tok) \<Rightarrow> ('client \<Rightarrow> rstr \<times> u16 \<Rightarrow> 'tok \<Rightarrow> error + 'up) \<Rightarrow>
   ('up \<Rightarrow> 's \<Rightarrow> copy_op list \<times> (io_error + unit)) \<Rightarrow> socket_addr \<Rightarrow> 's \<Rightarrow> ('tok, 'client) world \<Rightarrow>
   (error + unit) \<times> 's \<times> ('tok, 'client) world" where
  "handle io fresh connect_with_prefs copy peer s w =
     (case handshake io s of
        (Inl e, s1) \<Rightarrow> (Inl e, s1, w)
      | (Inr (host, port, user), s1) \<Rightarrow>
          (let ((a, t), w1) = begin_connect fresh peer host port user w;
               answer = connect_result (connect_with_prefs (client (tor w1)) (host, port) t);
               (r, s2, w2) = proxy io copy a answer s1 w1
           in (r, s2, w2\<lparr>streams := drop_handle a (streams w2)\<rparr>)))"

text \<open>How a finished connection is logged.\<close>

definition benign_kind :: "io_kind \<Rightarrow> bool" where
  "benign_kind k \<longleftrightarrow> k = UnexpectedEof \<or> k = BrokenPipe \<or> k = ConnectionReset \<or> k = ConnectionAborted"

definition is_benign_disconnect :: "error \<Rightarrow> bool" where
  "is_benign_disconnect e \<longleftrightarrow> list_ex (\<lambda>c. case c of IoCause x \<Rightarrow> benign_kind (kind x) | _ \<Rightarrow> False) e"

definition connection_log :: "socket_addr \<Rightarrow> error + unit \<Rightarrow> event list" where
  "connection_log peer r =
     (case r of
        Inr _ \<Rightarrow> []
      | Inl e \<Rightarrow>
          if is_benign_disconnect e
          then [Logged SevDebug (lit ''SOCKS connection closed'') [PeerField peer, error_field e]]
          else [Logged SevWarn (lit ''SOCKS connection failed'') [PeerField peer, error_field e]])"

text \<open>The line of a request that was read, logged before arti is asked.\<close>

definition request_log :: "socket_addr \<Rightarrow> rstr \<Rightarrow> u16 \<Rightarrow> rstr option \<Rightarrow> event" where
  "request_log peer host port user =
     Logged SevDebug (lit ''SOCKS CONNECT'') [PeerField peer, TargetField (target_text host port), UserField user]"

text \<open>
  \<open>spawn_connection\<close>: the task of a connection, which runs \<open>handle\<close> and logs how it ended.
\<close>

definition spawn_connection ::
  "'s stream_ops \<Rightarrow> (nat \<Rightarrow> 'tok) \<Rightarrow> ('client \<Rightarrow> rstr \<times> u16 \<Rightarrow> 'tok \<Rightarrow> error + 'up) \<Rightarrow>
   ('up \<Rightarrow> 's \<Rightarrow> copy_op list \<times> (io_error + unit)) \<Rightarrow> socket_addr \<Rightarrow> 's \<Rightarrow> ('tok, 'client) world \<Rightarrow>
   event list \<times> 's \<times> ('tok, 'client) world" where
  "spawn_connection io fresh connect_with_prefs copy peer s w =
     (let (r, s', w') = handle io fresh connect_with_prefs copy peer s w;
          requests = (case fst (handshake io s) of
            Inl _ \<Rightarrow> [] | Inr (host, port, user) \<Rightarrow> [request_log peer host port user])
      in (requests @ connection_log peer r, s', w'))"

text \<open>
  The accept loop: a connection is spawned, a failed accept is logged and waits 50 ms; only
  a failed bind ends it. It is run here over the accepts that have happened so far, with what
  it logs.
\<close>

datatype 's serve_action = Spawn 's socket_addr | Backoff nat

definition accept_action :: "'e + 's \<times> socket_addr \<Rightarrow> 's serve_action" where
  "accept_action r = (case r of Inr (c, peer) \<Rightarrow> Spawn c peer | Inl e \<Rightarrow> Backoff 50)"

definition accept_log :: "cause + 's \<times> socket_addr \<Rightarrow> event list" where
  "accept_log r = (case r of
      Inr _ \<Rightarrow> [] | Inl c \<Rightarrow> [Logged SevWarn (lit ''SOCKS accept failed; continuing'') [ErrorField c]])"

text \<open>\<open>TorManager::isolation\<close>, for the line logged once the listener is bound.\<close>

definition manager_isolation :: "('tok, 'client) tor_manager \<Rightarrow> isolation_policy" where
  "manager_isolation m = policy m"

definition listening_log :: "socket_addr \<Rightarrow> ('tok, 'client) tor_manager \<Rightarrow> event" where
  "listening_log listen m =
     Logged SevInfo (lit ''SOCKS5 server listening'') [ListenField listen, PolicyField (manager_isolation m)]"

text \<open>In the \<open>kernel-sockets\<close> build the error of the bind is a cause of its own.\<close>

definition serve ::
  "socket_addr \<Rightarrow> ('tok, 'client) tor_manager \<Rightarrow> io_error + unit \<Rightarrow> (io_error + 's \<times> socket_addr) list \<Rightarrow>
   event list \<times> (error + 's serve_action list)" where
  "serve listen m bind accepts =
     (case bind of
        Inl e \<Rightarrow> ([], Inl [Text (lit ''binding SOCKS listener on '' @ socket_display listen), IoCause e])
      | Inr _ \<Rightarrow> (listening_log listen m # concat (map (\<lambda>r. accept_log (map_sum IoCause id r)) accepts),
                Inr (map accept_action accepts)))"

text \<open>In the \<open>vcl\<close> build it becomes part of the message.\<close>

definition serve_vcl ::
  "socket_addr \<Rightarrow> ('tok, 'client) tor_manager \<Rightarrow> rstr + unit \<Rightarrow> (rstr + 's \<times> socket_addr) list \<Rightarrow>
   event list \<times> (error + 's serve_action list)" where
  "serve_vcl listen m bind accepts =
     (case bind of
        Inl e \<Rightarrow> ([], Inl [Text (lit ''binding SOCKS listener on '' @ socket_display listen @ lit '': '' @ e)])
      | Inr _ \<Rightarrow> (listening_log listen m # concat (map (\<lambda>r. accept_log (map_sum Foreign id r)) accepts),
                Inr (map accept_action accepts)))"

end
