(* ===== verification/Socks_Handshake.thy ===== *)
theory Socks_Handshake
  imports Socks_Server
begin

text \<open>
  The negotiation against the wire format of RFC 1928 and RFC 1929: an encoder for the
  client's side, and what the server answers to each well-formed request.
\<close>

section \<open>The client's side\<close>

datatype dest = DestV4 ipv4_addr | DestV6 ipv6_addr | DestName rstr

fun dest_ok :: "dest \<Rightarrow> bool" where
  "dest_ok (DestV4 a) = True"
| "dest_ok (DestV6 a) = ipv6_wf a"
| "dest_ok (DestName h) \<longleftrightarrow> list_all is_scalar h \<and> str_len h < 256"

fun ipv4_bytes :: "ipv4_addr \<Rightarrow> u8 list" where
  "ipv4_bytes (Ipv4 a b c d) = [a, b, c, d]"

fun dest_atyp :: "dest \<Rightarrow> u8" where
  "dest_atyp (DestV4 a) = ATYP_IPV4"
| "dest_atyp (DestV6 a) = ATYP_IPV6"
| "dest_atyp (DestName h) = ATYP_DOMAIN"

fun dest_bytes :: "dest \<Rightarrow> u8 list" where
  "dest_bytes (DestV4 a) = ipv4_bytes a"
| "dest_bytes (DestV6 a) = octets a"
| "dest_bytes (DestName h) = of_nat (str_len h) # utf8_encode h"

text \<open>The host text the server hands to Tor.\<close>

fun dest_host :: "dest \<Rightarrow> rstr" where
  "dest_host (DestV4 a) = ipv4_display a"
| "dest_host (DestV6 a) = ipv6_display a"
| "dest_host (DestName h) = h"

definition port_bytes :: "u16 \<Rightarrow> u8 list" where
  "port_bytes p = [of_nat (unat p div 256), of_nat (unat p mod 256)]"

definition greeting_bytes :: "u8 list \<Rightarrow> u8 list" where
  "greeting_bytes methods = [SOCKS5, of_nat (length methods)] @ methods"

definition userpass_bytes :: "rstr \<Rightarrow> u8 list \<Rightarrow> u8 list" where
  "userpass_bytes user pass =
     [AUTH_USERPASS_VER, of_nat (str_len user)] @ utf8_encode user @ [of_nat (length pass)] @ pass"

definition request_bytes :: "u8 \<Rightarrow> u8 \<Rightarrow> dest \<Rightarrow> u16 \<Rightarrow> u8 list" where
  "request_bytes cmd rsv d port = [SOCKS5, cmd, rsv, dest_atyp d] @ dest_bytes d @ port_bytes port"

section \<open>Programs that consume and produce bytes\<close>

text \<open>
  \<open>runs p i out r\<close>: on any stream that starts with \<open>i\<close> and takes \<open>out\<close>, \<open>p\<close> consumes exactly
  \<open>i\<close>, sends exactly \<open>out\<close> and ends with \<open>r\<close>, a value or an error.
\<close>

context roomy_stream begin

definition runs :: "('s, 'a) prog \<Rightarrow> u8 list \<Rightarrow> u8 list \<Rightarrow> error + 'a \<Rightarrow> bool" where
  "runs p inp out r \<longleftrightarrow> (\<forall>s rest. unread s = inp @ rest \<longrightarrow> length out \<le> room s \<longrightarrow>
     (\<exists>s'. p s = (r, s') \<and> unread s' = rest \<and> sent s' = sent s @ out \<and> room s' = room s - length out))"

lemma runsI:
  assumes "\<And>s rest. unread s = inp @ rest \<Longrightarrow> length out \<le> room s \<Longrightarrow>
     \<exists>s'. p s = (r, s') \<and> unread s' = rest \<and> sent s' = sent s @ out \<and> room s' = room s - length out"
  shows "runs p inp out r"
  using assms unfolding runs_def by blast

lemma runsD:
  assumes "runs p inp out r" and "unread s = inp @ rest" and "length out \<le> room s"
  obtains s' where "p s = (r, s')" "unread s' = rest" "sent s' = sent s @ out"
    "room s' = room s - length out"
  using assms unfolding runs_def by blast

lemma runs_ret: "runs (ret a) [] [] (Inr a)"
  by (rule runsI) (simp add: prog_simps)

lemma runs_throw: "runs (throw e) [] [] (Inl e)"
  by (rule runsI) (simp add: prog_simps)

lemma runs_bail: "runs (bail m) [] [] (Inl [Text m])"
  by (simp add: bail_def runs_throw)

lemma runs_read:
  assumes "length x = n"
  shows "runs (lift_io (read_exact io n)) x [] (Inr x)"
proof (rule runsI)
  fix s rest
  assume "unread s = x @ rest"
  with assms obtain s' where "read_exact io n s = (Inr x, s')" "unread s' = rest" "sent s' = sent s"
    using read_exact_ok [of n s] by auto
  then show "\<exists>s'. lift_io (read_exact io n) s = (Inr x, s') \<and> unread s' = rest \<and> sent s' = sent s @ []
      \<and> room s' = room s - length ([] :: u8 list)"
    using read_exact_room by (simp add: prog_simps)
qed

lemma runs_write: "runs (lift_io (write_all io b)) [] b (Inr ())"
proof (rule runsI)
  fix s rest
  assume s: "unread s = [] @ rest" "length b \<le> room s"
  then obtain s' where "write_all io b s = (Inr (), s')" "room s' = room s - length b"
    using write_all_room by blast
  with s show "\<exists>s'. lift_io (write_all io b) s = (Inr (), s') \<and> unread s' = rest \<and> sent s' = sent s @ b
      \<and> room s' = room s - length b"
    using write_all_ok [of b s "()" s'] by (simp add: prog_simps)
qed

lemma runs_context: "runs p i out (Inr a) \<Longrightarrow> runs (with_context m p) i out (Inr a)"
  unfolding runs_def by (meson with_context_Inr)

lemma runs_stop: "runs p i out (Inl e) \<Longrightarrow> runs (and_then p k) i out (Inl e)"
  unfolding runs_def by (meson and_then_Inl)

lemma runs_caught: "runs p i out (Inr a) \<Longrightarrow> runs (catch p h) i out (Inr a)"
  unfolding runs_def by (meson catch_Inr)

lemma runs_seq:
  assumes "runs p i out (Inr a)" and "runs (k a) i' out' r"
  shows "runs (and_then p k) (i @ i') (out @ out') r"
proof (rule runsI)
  fix s rest
  assume s: "unread s = (i @ i') @ rest" "length (out @ out') \<le> room s"
  obtain t where t: "p s = (Inr a, t)" "unread t = i' @ rest" "sent t = sent s @ out"
      "room t = room s - length out"
    by (rule runsD [OF assms(1), of s "i' @ rest"]) (use s in auto)
  obtain u where "k a t = (r, u)" "unread u = rest" "sent u = sent t @ out'" "room u = room t - length out'"
    by (rule runsD [OF assms(2), of t rest]) (use s t in auto)
  with t show "\<exists>s'. and_then p k s = (r, s') \<and> unread s' = rest \<and> sent s' = sent s @ out @ out'
      \<and> room s' = room s - length (out @ out')"
    by (auto simp: prog_simps)
qed

lemma runs_handled:
  assumes "runs p i out (Inl e)" and "runs (h e) i' out' r"
  shows "runs (catch p h) (i @ i') (out @ out') r"
proof (rule runsI)
  fix s rest
  assume s: "unread s = (i @ i') @ rest" "length (out @ out') \<le> room s"
  obtain t where t: "p s = (Inl e, t)" "unread t = i' @ rest" "sent t = sent s @ out"
      "room t = room s - length out"
    by (rule runsD [OF assms(1), of s "i' @ rest"]) (use s in auto)
  obtain u where "h e t = (r, u)" "unread u = rest" "sent u = sent t @ out'" "room u = room t - length out'"
    by (rule runsD [OF assms(2), of t rest]) (use s t in auto)
  with t show "\<exists>s'. catch p h s = (r, s') \<and> unread s' = rest \<and> sent s' = sent s @ out @ out'
      \<and> room s' = room s - length (out @ out')"
    by (auto simp: prog_simps)
qed

text \<open>One read or write followed by the rest.\<close>

lemma runs_read_then:
  "length x = n \<Longrightarrow> runs (k x) i out r \<Longrightarrow> runs (and_then (lift_io (read_exact io n)) k) (x @ i) out r"
  using runs_seq [OF runs_read] by fastforce

lemma runs_read_context_then:
  "length x = n \<Longrightarrow> runs (k x) i out r \<Longrightarrow>
   runs (and_then (with_context m (lift_io (read_exact io n))) k) (x @ i) out r"
  using runs_seq [OF runs_context [OF runs_read]] by fastforce

lemma runs_write_then:
  "runs (k ()) i out r \<Longrightarrow> runs (and_then (lift_io (write_all io x)) k) i (x @ out) r"
  using runs_seq [OF runs_write] by fastforce

lemmas runs_steps = runs_read_then runs_read_context_then runs_write_then

end

section \<open>The server's reading of them\<close>

lemma unat_of_nat_u8: "n < 256 \<Longrightarrow> unat (of_nat n :: u8) = n"
  by (simp add: unsigned_of_nat take_bit_nat_eq_self)

lemma port_round: "(of_nat (be16 (of_nat (unat p div 256)) (of_nat (unat p mod 256))) :: u16) = p"
proof -
  have "unat p < 65536" using unsigned_less [of p] by simp
  then have "unat p div 256 < 256" by (simp add: less_mult_imp_div_less)
  then have "be16 (of_nat (unat p div 256)) (of_nat (unat p mod 256)) = unat p"
    by (simp add: be16_def unat_of_nat_u8)
  then show ?thesis by simp
qed

context roomy_stream begin

lemma runs_userpass:
  assumes "list_all is_scalar user" and "str_len user < 256" and "length pass < 256"
  shows "runs (read_userpass io) (userpass_bytes user pass) [] (Inr user)"
proof -
  have bytes: "userpass_bytes user pass = [AUTH_USERPASS_VER] @ [of_nat (str_len user)] @
      utf8_encode user @ [of_nat (length pass)] @ pass @ []"
    by (simp add: userpass_bytes_def)
  show ?thesis
    unfolding bytes read_userpass_def
    by (rule runs_read_context_then, simp, simp only: nth_Cons_0 simp_thms if_False,
        (rule runs_read_then, simp add: unat_of_nat_u8 assms str_len_def [symmetric])+,
        simp add: from_utf8_encode assms runs_ret)
qed

lemma runs_port:
  "runs (and_then (lift_io (read_exact io 2)) (\<lambda>port. ret (h, of_nat (be16 (port ! 0) (port ! 1)))))
     (port_bytes p) [] (Inr (h :: rstr, p))"
  using runs_read_then [OF _ runs_ret, of "port_bytes p" 2
      "\<lambda>port. (h, of_nat (be16 (port ! 0) (port ! 1)) :: u16)"]
  by (simp add: port_bytes_def port_round)

lemma atyp_distinct [simp]: "ATYP_IPV6 \<noteq> ATYP_IPV4" "ATYP_DOMAIN \<noteq> ATYP_IPV4" "ATYP_DOMAIN \<noteq> ATYP_IPV6"
  by (simp_all add: socks_consts)

lemma runs_target:
  assumes "dest_ok d"
  shows "runs (read_target io (dest_atyp d)) (dest_bytes d @ port_bytes p) [] (Inr (dest_host d, p))"
proof (cases d)
  case (DestV4 a)
  obtain w x y z where "a = Ipv4 w x y z" by (cases a)
  then have "runs (and_then (lift_io (read_exact io 4)) (\<lambda>b. ret (ipv4_display (ipv4_of b))))
      (dest_bytes d) [] (Inr (dest_host d))"
    using runs_read_then [OF _ runs_ret, of "[w, x, y, z]" 4 "\<lambda>b. ipv4_display (ipv4_of b)"]
    by (simp add: DestV4 del: ipv4_display.simps)
  from runs_seq [OF this runs_port] show ?thesis by (simp add: DestV4 read_target_def)
next
  case (DestV6 a)
  then have "runs (and_then (lift_io (read_exact io 16)) (\<lambda>b. ret (ipv6_display (Ipv6 b))))
      (dest_bytes d) [] (Inr (dest_host d))"
    using assms runs_read_then [OF _ runs_ret, of "octets a" 16 "\<lambda>b. ipv6_display (Ipv6 b)"]
    by (simp add: ipv6_wf_def)
  from runs_seq [OF this runs_port] show ?thesis by (simp add: DestV6 read_target_def)
next
  case (DestName h)
  have "runs (and_then (lift_io (read_exact io 1)) (\<lambda>len. and_then (lift_io (read_exact io (unat (len ! 0))))
      (\<lambda>name. case from_utf8 name of Some h \<Rightarrow> ret h
         | None \<Rightarrow> throw [Text (lit ''SOCKS domain name is not UTF-8''), Utf8Cause])))
      ([of_nat (str_len h)] @ utf8_encode h @ []) [] (Inr h)"
    using assms DestName
    by (intro runs_read_then) (simp_all add: unat_of_nat_u8 str_len_def from_utf8_encode runs_ret)
  from runs_seq [OF this runs_port] show ?thesis by (simp add: DestName read_target_def)
qed

lemma runs_request:
  assumes "dest_ok d"
  shows "runs (read_request io) (request_bytes CMD_CONNECT rsv d p) [] (Inr (dest_host d, p))"
proof -
  have "request_bytes CMD_CONNECT rsv d p =
      [SOCKS5, CMD_CONNECT, rsv, dest_atyp d] @ dest_bytes d @ port_bytes p"
    by (simp add: request_bytes_def)
  then show ?thesis
    unfolding read_request_def
    by (simp only:) (rule runs_read_context_then, simp, simp add: runs_caught runs_target assms)
qed

text \<open>The requests it refuses: another command, another address type.\<close>

lemma runs_request_command:
  assumes "cmd \<noteq> CMD_CONNECT"
  shows "runs (read_request io) [SOCKS5, cmd, rsv, atyp] (reply_bytes REP_CMD_NOT_SUPPORTED)
    (Inl [Text (lit ''unsupported SOCKS command '' @ dec_byte cmd @ lit '' (only CONNECT)'')])"
proof -
  have "runs (read_request io) ([SOCKS5, cmd, rsv, atyp] @ []) (reply_bytes REP_CMD_NOT_SUPPORTED @ [])
    (Inl [Text (lit ''unsupported SOCKS command '' @ dec_byte cmd @ lit '' (only CONNECT)'')])"
    unfolding read_request_def send_reply_def
    by (rule runs_read_context_then, simp)
      (simp only: nth_Cons_0 simp_thms if_False, simp add: assms,
        rule runs_write_then [where out = "[]", simplified], rule runs_bail)
  then show ?thesis by simp
qed

lemma runs_request_atyp:
  assumes "atyp \<notin> {ATYP_IPV4, ATYP_IPV6, ATYP_DOMAIN}"
  shows "runs (read_request io) [SOCKS5, CMD_CONNECT, rsv, atyp] (reply_bytes REP_ATYP_NOT_SUPPORTED)
    (Inl [Text (lit ''unsupported SOCKS address type '' @ dec_byte atyp)])"
proof -
  let ?e = "[Text (lit ''unsupported SOCKS address type '' @ dec_byte atyp)]"
  have "runs (read_target io atyp) [] [] (Inl ?e)"
    using assms by (auto simp: read_target_def intro: runs_stop runs_bail)
  moreover have "runs (and_then (send_reply io REP_ATYP_NOT_SUPPORTED) (\<lambda>_. throw ?e)) []
      (reply_bytes REP_ATYP_NOT_SUPPORTED @ []) (Inl ?e)"
    unfolding send_reply_def by (rule runs_write_then [OF runs_throw])
  ultimately have "runs (catch (read_target io atyp) (\<lambda>e.
      and_then (send_reply io REP_ATYP_NOT_SUPPORTED) (\<lambda>_. throw e))) ([] @ [])
      ([] @ reply_bytes REP_ATYP_NOT_SUPPORTED @ []) (Inl ?e)"
    by (rule runs_handled)
  then have "runs (read_request io) ([SOCKS5, CMD_CONNECT, rsv, atyp] @ []) (reply_bytes REP_ATYP_NOT_SUPPORTED)
      (Inl ?e)"
    unfolding read_request_def by (intro runs_read_context_then) simp_all
  then show ?thesis by simp
qed

text \<open>Method negotiation: the three answers.\<close>

lemma runs_method_userpass:
  assumes "length methods < 256" and "METHOD_USERPASS \<in> set methods"
    and "list_all is_scalar user" and "str_len user < 256" and "length pass < 256"
  shows "runs (negotiate_method io) (greeting_bytes methods @ userpass_bytes user pass)
    [SOCKS5, METHOD_USERPASS, AUTH_USERPASS_VER, REP_SUCCESS] (Inr (Some user))"
proof -
  have "runs (and_then (read_userpass io) (\<lambda>user.
      and_then (lift_io (write_all io [AUTH_USERPASS_VER, REP_SUCCESS])) (\<lambda>_. ret (Some user))))
      (userpass_bytes user pass @ []) ([] @ [AUTH_USERPASS_VER, REP_SUCCESS] @ []) (Inr (Some user))"
    by (rule runs_seq [OF runs_userpass [OF assms(3-5)]]) (rule runs_write_then [OF runs_ret])
  then have "runs (negotiate_method io)
      ([SOCKS5, of_nat (length methods)] @ methods @ userpass_bytes user pass)
      ([SOCKS5, METHOD_USERPASS] @ [AUTH_USERPASS_VER, REP_SUCCESS]) (Inr (Some user))"
    unfolding negotiate_method_def using assms(1,2)
    by (intro runs_read_context_then, simp, simp only: nth_Cons_0 simp_thms if_False,
        intro runs_read_context_then, simp add: unat_of_nat_u8, simp only: if_True,
        intro runs_write_then, simp)
  then show ?thesis by (simp add: greeting_bytes_def)
qed

lemma runs_method_noauth:
  assumes "length methods < 256" and "METHOD_USERPASS \<notin> set methods" and "METHOD_NOAUTH \<in> set methods"
  shows "runs (negotiate_method io) (greeting_bytes methods) [SOCKS5, METHOD_NOAUTH] (Inr None)"
proof -
  have "runs (negotiate_method io) ([SOCKS5, of_nat (length methods)] @ methods @ [])
      ([SOCKS5, METHOD_NOAUTH] @ []) (Inr None)"
    unfolding negotiate_method_def using assms
    by (intro runs_read_context_then, simp, simp only: nth_Cons_0 simp_thms if_False,
        intro runs_read_context_then, simp add: unat_of_nat_u8, simp only: if_True if_False,
        intro runs_write_then runs_ret)
  then show ?thesis by (simp add: greeting_bytes_def)
qed

lemma runs_method_none:
  assumes "length methods < 256" and "METHOD_USERPASS \<notin> set methods" and "METHOD_NOAUTH \<notin> set methods"
  shows "runs (negotiate_method io) (greeting_bytes methods) [SOCKS5, METHOD_NONE]
    (Inl [Text (lit ''client offered no acceptable SOCKS auth method'')])"
proof -
  have "runs (negotiate_method io) ([SOCKS5, of_nat (length methods)] @ methods @ [])
      ([SOCKS5, METHOD_NONE] @ []) (Inl [Text (lit ''client offered no acceptable SOCKS auth method'')])"
    unfolding negotiate_method_def using assms
    by (intro runs_read_context_then, simp, simp only: nth_Cons_0 simp_thms if_False,
        intro runs_read_context_then, simp add: unat_of_nat_u8, simp only: if_False,
        intro runs_write_then runs_bail)
  then show ?thesis by (simp add: greeting_bytes_def)
qed

end

section \<open>What a well-formed client gets\<close>

text \<open>A client authenticates with a username or not; the server prefers the username.\<close>

datatype auth = Anonymous | UserPass rstr "u8 list"

fun auth_ok :: "u8 list \<Rightarrow> auth \<Rightarrow> bool" where
  "auth_ok methods Anonymous \<longleftrightarrow> METHOD_USERPASS \<notin> set methods \<and> METHOD_NOAUTH \<in> set methods"
| "auth_ok methods (UserPass u pw) \<longleftrightarrow>
     METHOD_USERPASS \<in> set methods \<and> list_all is_scalar u \<and> str_len u < 256 \<and> length pw < 256"

fun auth_bytes :: "auth \<Rightarrow> u8 list" where
  "auth_bytes Anonymous = []"
| "auth_bytes (UserPass u pw) = userpass_bytes u pw"

fun auth_reply :: "auth \<Rightarrow> u8 list" where
  "auth_reply Anonymous = [0x05, 0x00]"
| "auth_reply (UserPass u pw) = [0x05, 0x02, 0x01, 0x00]"

fun auth_user :: "auth \<Rightarrow> rstr option" where
  "auth_user Anonymous = None"
| "auth_user (UserPass u pw) = Some u"

lemma length_auth_reply: "length (auth_reply au) \<le> 4"
  by (cases au) simp_all

context roomy_stream begin

lemma runs_method_auth:
  assumes "length methods < 256" and "auth_ok methods au"
  shows "runs (negotiate_method io) (greeting_bytes methods @ auth_bytes au) (auth_reply au) (Inr (auth_user au))"
proof (cases au)
  case Anonymous
  with assms runs_method_noauth [of methods] show ?thesis by (simp add: socks_consts)
next
  case (UserPass u pw)
  with assms runs_method_userpass [of methods u pw] show ?thesis by (simp add: socks_consts)
qed

lemma runs_handshake:
  assumes "length methods < 256" and "auth_ok methods au" and "runs (read_request io) i out r"
  shows "runs (handshake io) ((greeting_bytes methods @ auth_bytes au) @ i) (auth_reply au @ out)
    (case r of Inl e \<Rightarrow> Inl e | Inr (host, port) \<Rightarrow> Inr (host, port, auth_user au))"
proof (cases r)
  case (Inl e)
  have "runs (and_then (read_request io) (\<lambda>(host, port). ret (host, port, auth_user au))) i out (Inl e)"
    using assms(3) Inl by (intro runs_stop) simp
  then show ?thesis
    unfolding handshake_def Inl sum.case by (rule runs_seq [OF runs_method_auth [OF assms(1,2)]])
next
  case (Inr hp)
  obtain host port where "hp = (host, port)" by (cases hp)
  with Inr assms have "runs (and_then (read_request io) (\<lambda>(host, port). ret (host, port, auth_user au)))
      (i @ []) (out @ []) (Inr (host, port, auth_user au))"
    by (intro runs_seq [where a = hp]) (simp_all add: runs_ret)
  then have "runs (and_then (read_request io) (\<lambda>(host, port). ret (host, port, auth_user au)))
      i out (Inr (host, port, auth_user au))" by simp
  then show ?thesis
    unfolding handshake_def Inr \<open>hp = (host, port)\<close> sum.case prod.case
    by (rule runs_seq [OF runs_method_auth [OF assms(1,2)]])
qed

lemma runs_handshake_refused:
  assumes "length methods < 256" and "METHOD_USERPASS \<notin> set methods" and "METHOD_NOAUTH \<notin> set methods"
  shows "runs (handshake io) (greeting_bytes methods) [SOCKS5, METHOD_NONE]
    (Inl [Text (lit ''client offered no acceptable SOCKS auth method'')])"
  unfolding handshake_def by (rule runs_stop [OF runs_method_none [OF assms]])

end

text \<open>
  C17. The negotiation understands every well-formed CONNECT request: with the auth methods,
  credentials, destination and port a client encodes by RFC 1928 and RFC 1929, it returns
  that destination, port and username, consumes exactly those bytes and sends exactly the
  method selection (and the auth status).
\<close>

theorem handshake_accepts:
  assumes "roomy_stream io unread sent room" and "length methods < 256" and "auth_ok methods au"
    and "dest_ok d" and "4 \<le> room s"
    and "unread s = greeting_bytes methods @ auth_bytes au @ request_bytes CMD_CONNECT rsv d port @ rest"
  shows "\<exists>s'. handshake io s = (Inr (dest_host d, port, auth_user au), s') \<and> unread s' = rest
    \<and> sent s' = sent s @ auth_reply au"
proof -
  note rs = assms(1)
  have "roomy_stream.runs unread sent room (handshake io)
      ((greeting_bytes methods @ auth_bytes au) @ request_bytes CMD_CONNECT rsv d port)
      (auth_reply au) (Inr (dest_host d, port, auth_user au))"
    using roomy_stream.runs_handshake [OF rs assms(2,3) roomy_stream.runs_request [OF rs assms(4)]] by simp
  moreover have "length (auth_reply au) \<le> room s" using length_auth_reply [of au] assms(5) by simp
  ultimately show ?thesis
    unfolding roomy_stream.runs_def [OF rs] using assms(6) by (metis append.assoc)
qed

definition example_request :: "u8 list" where
  "example_request = [5, 2, 0, 2, 1, 3, 100, 110, 115, 1, 120, 5, 1, 0, 3, 7, 97, 46, 111, 110, 105, 111, 110, 3, 85]"

lemma example_request_bytes:
  "example_request = greeting_bytes [0, 2] @ auth_bytes (UserPass (lit ''dns'') [120]) @
     request_bytes CMD_CONNECT 0 (DestName (lit ''a.onion'')) 853 @ []"
  by (simp add: example_request_def greeting_bytes_def userpass_bytes_def request_bytes_def
      port_bytes_def str_len_def utf8_encode_def utf8_char_def lit_def socks_consts)

lemma example_auth_ok: "auth_ok [0, 2] (UserPass (lit ''dns'') [120])"
  by (simp add: str_len_def utf8_encode_def utf8_char_def lit_def socks_consts is_scalar_def)

lemma example_dest_ok: "dest_ok (DestName (lit ''a.onion''))"
  by (simp add: str_len_def utf8_encode_def utf8_char_def lit_def is_scalar_def)

theorem handshake_accepts_witness:
  "\<exists>s'. handshake conn_ops (example_conn [take 5 example_request, [], drop 5 example_request])
      = (Inr (lit ''a.onion'', 853, Some (lit ''dns'')), s') \<and> conn_unread s' = [] \<and> tx s' = [5, 2, 1, 0]"
proof -
  let ?c = "example_conn [take 5 example_request, [], drop 5 example_request]"
  have unread: "conn_unread ?c = greeting_bytes [0, 2] @ auth_bytes (UserPass (lit ''dns'') [120]) @
      request_bytes CMD_CONNECT 0 (DestName (lit ''a.onion'')) 853 @ []"
    unfolding example_request_bytes [symmetric] by (simp add: example_conn_def conn_unread_def)
  have "\<exists>s'. handshake conn_ops ?c = (Inr (dest_host (DestName (lit ''a.onion'')), 853,
        auth_user (UserPass (lit ''dns'') [120])), s') \<and> conn_unread s' = []
      \<and> tx s' = tx ?c @ auth_reply (UserPass (lit ''dns'') [120])"
    by (rule handshake_accepts [OF conn.roomy_stream_axioms _ example_auth_ok example_dest_ok _ unread])
      (simp_all add: example_conn_def)
  then show ?thesis by (simp add: example_conn_def)
qed

text \<open>
  C27. Requests the proxy does not serve are refused with the reply code of RFC 1928 and
  before any byte of the payload is read: no acceptable method, a command other than
  CONNECT (0x07), an unknown address type (0x08).
\<close>

theorem handshake_refuses:
  assumes "roomy_stream io unread sent room" and "length methods < 256" and "14 \<le> room s"
    and "unread s = greeting_bytes methods @ after"
  shows "(METHOD_USERPASS \<notin> set methods \<and> METHOD_NOAUTH \<notin> set methods \<longrightarrow>
      (\<exists>e s'. handshake io s = (Inl e, s') \<and> unread s' = after \<and> sent s' = sent s @ [0x05, 0xFF]))
    \<and> (auth_ok methods au \<and> cmd \<noteq> CMD_CONNECT \<and> after = auth_bytes au @ [SOCKS5, cmd, rsv, atyp] @ rest \<longrightarrow>
      (\<exists>e s'. handshake io s = (Inl e, s') \<and> unread s' = rest
         \<and> sent s' = sent s @ auth_reply au @ [0x05, 0x07, 0, 1, 0, 0, 0, 0, 0, 0]))
    \<and> (auth_ok methods au \<and> atyp \<notin> {ATYP_IPV4, ATYP_IPV6, ATYP_DOMAIN} \<and>
       after = auth_bytes au @ [SOCKS5, CMD_CONNECT, rsv, atyp] @ rest \<longrightarrow>
      (\<exists>e s'. handshake io s = (Inl e, s') \<and> unread s' = rest
         \<and> sent s' = sent s @ auth_reply au @ [0x05, 0x08, 0, 1, 0, 0, 0, 0, 0, 0]))"
proof (intro conjI impI)
  note rs = assms(1)
  let ?runs = "roomy_stream.runs unread sent room (handshake io)"
  have fits: "length (auth_reply au @ reply_bytes r) \<le> room s" for r
    using length_auth_reply [of au] assms(3) by (simp add: reply_bytes_def)
  {
    assume "METHOD_USERPASS \<notin> set methods \<and> METHOD_NOAUTH \<notin> set methods"
    then obtain e where "?runs (greeting_bytes methods) [0x05, 0xFF] (Inl e)"
      using roomy_stream.runs_handshake_refused [OF rs assms(2)] by (auto simp: socks_consts)
    with assms(3,4) show "\<exists>e s'. handshake io s = (Inl e, s') \<and> unread s' = after
        \<and> sent s' = sent s @ [0x05, 0xFF]"
      unfolding roomy_stream.runs_def [OF rs] by fastforce
  next
    assume a: "auth_ok methods au \<and> cmd \<noteq> CMD_CONNECT \<and> after = auth_bytes au @ [SOCKS5, cmd, rsv, atyp] @ rest"
    then obtain e where "?runs ((greeting_bytes methods @ auth_bytes au) @ [SOCKS5, cmd, rsv, atyp])
        (auth_reply au @ reply_bytes REP_CMD_NOT_SUPPORTED) (Inl e)"
      using roomy_stream.runs_handshake [OF rs assms(2) _ roomy_stream.runs_request_command [OF rs]] by fastforce
    with a assms(4) fits show "\<exists>e s'. handshake io s = (Inl e, s') \<and> unread s' = rest
        \<and> sent s' = sent s @ auth_reply au @ [0x05, 0x07, 0, 1, 0, 0, 0, 0, 0, 0]"
      unfolding roomy_stream.runs_def [OF rs] by (fastforce simp: reply_bytes_def socks_consts)
  next
    assume a: "auth_ok methods au \<and> atyp \<notin> {ATYP_IPV4, ATYP_IPV6, ATYP_DOMAIN} \<and>
       after = auth_bytes au @ [SOCKS5, CMD_CONNECT, rsv, atyp] @ rest"
    then obtain e where "?runs ((greeting_bytes methods @ auth_bytes au) @ [SOCKS5, CMD_CONNECT, rsv, atyp])
        (auth_reply au @ reply_bytes REP_ATYP_NOT_SUPPORTED) (Inl e)"
      using roomy_stream.runs_handshake [OF rs assms(2) _ roomy_stream.runs_request_atyp [OF rs]] by fastforce
    with a assms(4) fits show "\<exists>e s'. handshake io s = (Inl e, s') \<and> unread s' = rest
        \<and> sent s' = sent s @ auth_reply au @ [0x05, 0x08, 0, 1, 0, 0, 0, 0, 0, 0]"
      unfolding roomy_stream.runs_def [OF rs] by (fastforce simp: reply_bytes_def socks_consts)
  }
qed

theorem handshake_refuses_witness:
  "\<exists>e s'. handshake conn_ops (example_conn [[5, 1, 0], [5, 2, 0, 1, 9]]) = (Inl e, s')
     \<and> conn_unread s' = [9] \<and> tx s' = [5, 0, 5, 7, 0, 1, 0, 0, 0, 0, 0, 0]"
  using handshake_refuses [OF conn.roomy_stream_axioms, of "[0]" "example_conn [[5, 1, 0], [5, 2, 0, 1, 9]]"
      "[5, 2, 0, 1, 9]" Anonymous 2 0 1 "[9]"]
  by (simp add: example_conn_def conn_unread_def greeting_bytes_def socks_consts)

end
