(* ===== verification/Socks_Safety.thy ===== *)
theory Socks_Safety
  imports Socks_Handshake
begin

text \<open>
  The negotiation on arbitrary input: a program logic for what a program sends, one for what
  it consumes, and with them that a refused client never sees a success and that an accepted
  one sent a well-formed request.
\<close>

section \<open>Everything it can send\<close>

text \<open>
  \<open>emits pre p E V\<close>: with \<open>pre\<close> sent already, whatever \<open>p\<close> reads, the bytes sent when it ends
  satisfy \<open>E\<close> if it ends with an error and \<open>V a\<close> if it ends with \<open>a\<close>. The rules are those of a
  program logic.
\<close>

context client_stream begin

definition emits :: "u8 list \<Rightarrow> ('s, 'a) prog \<Rightarrow> (u8 list \<Rightarrow> bool) \<Rightarrow> ('a \<Rightarrow> u8 list \<Rightarrow> bool) \<Rightarrow> bool" where
  "emits pre p E V \<longleftrightarrow> (\<forall>s r s'. p s = (r, s') \<longrightarrow>
     (\<exists>out. sent s' = sent s @ out \<and> (case r of Inl e \<Rightarrow> E (pre @ out) | Inr a \<Rightarrow> V a (pre @ out))))"

lemma emitsI:
  "(\<And>s r s'. p s = (r, s') \<Longrightarrow>
     \<exists>out. sent s' = sent s @ out \<and> (case r of Inl e \<Rightarrow> E (pre @ out) | Inr a \<Rightarrow> V a (pre @ out))) \<Longrightarrow>
   emits pre p E V"
  unfolding emits_def by blast

lemma emitsD:
  assumes "emits pre p E V" and "p s = (r, s')"
  obtains out where "sent s' = sent s @ out"
    and "case r of Inl e \<Rightarrow> E (pre @ out) | Inr a \<Rightarrow> V a (pre @ out)"
  using assms unfolding emits_def by blast

lemma emits_ret: "V a pre \<Longrightarrow> emits pre (ret a) E V"
  by (rule emitsI) (auto simp: prog_simps)

lemma emits_throw: "E pre \<Longrightarrow> emits pre (throw e) E V"
  by (rule emitsI) (auto simp: prog_simps)

lemma emits_bail: "E pre \<Longrightarrow> emits pre (bail m) E V"
  by (simp add: bail_def emits_throw)

lemma emits_read: "E pre \<Longrightarrow> (\<And>x. V x pre) \<Longrightarrow> emits pre (lift_io (read_exact io n)) E V"
proof (rule emitsI)
  fix s r s'
  assume ok: "E pre" "\<And>x. V x pre" and run: "lift_io (read_exact io n) s = (r, s')"
  then have "sent s' = sent s" using read_exact_sent [of n s] snd_lift_io [of "read_exact io n" s] by simp
  with ok show "\<exists>out. sent s' = sent s @ out \<and> (case r of Inl e \<Rightarrow> E (pre @ out) | Inr a \<Rightarrow> V a (pre @ out))"
    by (auto split: sum.split)
qed

lemma emits_write:
  "(\<And>q. prefix q b \<Longrightarrow> E (pre @ q)) \<Longrightarrow> V () (pre @ b) \<Longrightarrow> emits pre (lift_io (write_all io b)) E V"
  by (rule emitsI) (auto simp: lift_io_def split: prod.splits sum.splits dest!: write_all_err write_all_ok)

lemma emits_context: "emits pre p E V \<Longrightarrow> emits pre (with_context m p) E V"
  unfolding emits_def by (fastforce simp: with_context_def split: prod.splits sum.splits)

lemma emits_seq:
  assumes "emits pre p E V'" and "\<And>a pre'. V' a pre' \<Longrightarrow> emits pre' (k a) E V"
  shows "emits pre (and_then p k) E V"
proof (rule emitsI)
  fix s r s'
  assume "and_then p k s = (r, s')"
  then show "\<exists>out. sent s' = sent s @ out \<and> (case r of Inl e \<Rightarrow> E (pre @ out) | Inr a \<Rightarrow> V a (pre @ out))"
  proof (cases rule: and_then_cases)
    case (fail e)
    then show ?thesis using emitsD [OF assms(1) fail(1)] by auto
  next
    case (step a t)
    obtain out where "sent t = sent s @ out" "V' a (pre @ out)" using emitsD [OF assms(1) step(1)] by auto
    with emitsD [OF assms(2) step(2)] show ?thesis by (metis append.assoc)
  qed
qed

lemma emits_catch:
  assumes "emits pre p E' V" and "\<And>e pre'. E' pre' \<Longrightarrow> emits pre' (h e) E V"
  shows "emits pre (catch p h) E V"
proof (rule emitsI)
  fix s r s'
  assume run: "catch p h s = (r, s')"
  obtain r1 t where p: "p s = (r1, t)" by fastforce
  obtain out where out: "sent t = sent s @ out" "case r1 of Inl e \<Rightarrow> E' (pre @ out) | Inr a \<Rightarrow> V a (pre @ out)"
    by (rule emitsD [OF assms(1) p])
  show "\<exists>out. sent s' = sent s @ out \<and> (case r of Inl e \<Rightarrow> E (pre @ out) | Inr a \<Rightarrow> V a (pre @ out))"
  proof (cases r1)
    case (Inl e)
    with run p out have "h e t = (r, s')" "E' (pre @ out)" by (simp_all add: prog_simps)
    with emitsD [OF assms(2)] out(1) show ?thesis by (metis append.assoc)
  next
    case (Inr a)
    with run p out show ?thesis by (auto simp: prog_simps)
  qed
qed

lemma emits_read_then:
  "E pre \<Longrightarrow> (\<And>x. emits pre (k x) E V) \<Longrightarrow> emits pre (and_then (lift_io (read_exact io n)) k) E V"
  by (rule emits_seq [OF emits_read [where V = "\<lambda>_ pre'. pre' = pre"]]) auto

lemma emits_read_context_then:
  "E pre \<Longrightarrow> (\<And>x. emits pre (k x) E V) \<Longrightarrow>
   emits pre (and_then (with_context m (lift_io (read_exact io n))) k) E V"
  by (rule emits_seq [OF emits_context [OF emits_read [where V = "\<lambda>_ pre'. pre' = pre"]]]) auto

lemma emits_write_then:
  "(\<And>q. prefix q b \<Longrightarrow> E (pre @ q)) \<Longrightarrow> emits (pre @ b) (k ()) E V \<Longrightarrow>
   emits pre (and_then (lift_io (write_all io b)) k) E V"
  by (rule emits_seq [OF emits_write [where V = "\<lambda>_ pre'. pre' = pre @ b"]]) auto

lemma emits_if: "(b \<Longrightarrow> emits pre p E V) \<Longrightarrow> (\<not> b \<Longrightarrow> emits pre q E V) \<Longrightarrow> emits pre (if b then p else q) E V"
  by simp

lemma emits_option:
  "(\<And>a. x = Some a \<Longrightarrow> emits pre (f a) E V) \<Longrightarrow> (x = None \<Longrightarrow> emits pre p E V) \<Longrightarrow>
   emits pre (case x of Some a \<Rightarrow> f a | None \<Rightarrow> p) E V"
  by (cases x) simp_all

lemmas emits_rules = emits_ret emits_throw emits_bail emits_read_then emits_read_context_then
  emits_write_then emits_if emits_option

end

text \<open>The method selections that accept, and every complete script of a refusal.\<close>

definition accept_scripts :: "u8 list set" where
  "accept_scripts = {[0x05, 0x00], [0x05, 0x02, 0x01, 0x00]}"

definition refusal_scripts :: "u8 list set" where
  "refusal_scripts = {[0x05, 0xFF]} \<union> {m @ reply_bytes r | m r. m \<in> accept_scripts \<and> r \<in> {0x07, 0x08}}"

definition refusal :: "u8 list \<Rightarrow> bool" where
  "refusal out \<longleftrightarrow> (\<exists>script \<in> refusal_scripts. prefix out script)"

lemma refusal_prefix: "prefix p q \<Longrightarrow> refusal q \<Longrightarrow> refusal p"
  unfolding refusal_def using prefix_order.trans by blast

lemma refusal_none: "refusal [0x05, 0xFF]"
  unfolding refusal_def refusal_scripts_def by auto

lemma refusal_reply: "m \<in> accept_scripts \<Longrightarrow> r \<in> {0x07, 0x08} \<Longrightarrow> prefix q (m @ reply_bytes r) \<Longrightarrow> refusal q"
  unfolding refusal_def refusal_scripts_def by blast

lemma refusal_accept: "m \<in> accept_scripts \<Longrightarrow> prefix q m \<Longrightarrow> refusal q"
  by (rule refusal_reply [where m = m and r = "0x07"]) (auto intro: prefix_order.trans)

lemma refusal_early:
  "refusal []" "refusal [0x05]" "refusal [0x05, 0x00]" "refusal [0x05, 0x02]"
  "refusal [0x05, 0x02, 0x01]" "refusal [0x05, 0x02, 0x01, 0x00]" "refusal [0x05, 0xFF]"
proof -
  have m: "[0x05, 0x00] \<in> accept_scripts" "[0x05, 0x02, 0x01, 0x00] \<in> accept_scripts"
    by (simp_all add: accept_scripts_def)
  show "refusal []" "refusal [0x05]" "refusal [0x05, 0x00]"
    by (rule refusal_accept [OF m(1)], simp)+
  show "refusal [0x05, 0x02]" "refusal [0x05, 0x02, 0x01]" "refusal [0x05, 0x02, 0x01, 0x00]"
    by (rule refusal_accept [OF m(2)], simp)+
qed (rule refusal_none)

context client_stream begin

lemma emits_userpass:
  assumes "refusal pre"
  shows "emits pre (read_userpass io) refusal (\<lambda>u out. out = pre)"
  unfolding read_userpass_def by (intro emits_rules assms refl)

lemma emits_method:
  "emits [] (negotiate_method io) refusal
     (\<lambda>user out. out = (if user = None then [0x05, 0x00] else [0x05, 0x02, 0x01, 0x00]))"
proof -
  have up: "emits [0x05, 0x02] (and_then (read_userpass io) (\<lambda>user.
      and_then (lift_io (write_all io [AUTH_USERPASS_VER, REP_SUCCESS])) (\<lambda>_. ret (Some user)))) refusal
      (\<lambda>user out. out = (if user = None then [0x05, 0x00] else [0x05, 0x02, 0x01, 0x00]))"
    by (rule emits_seq [OF emits_userpass], rule refusal_early, intro emits_write_then emits_ret)
      (auto simp: refusal_early socks_consts prefix_Cons)
  show ?thesis
    unfolding negotiate_method_def
    by (intro emits_rules)
      (use up in \<open>auto simp: refusal_early socks_consts prefix_Cons\<close>)
qed

lemma emits_request:
  assumes "m \<in> accept_scripts"
  shows "emits m (read_request io) refusal (\<lambda>_ out. out = m)"
proof -
  have m: "refusal m" using assms by (rule refusal_accept) simp
  have reply: "refusal (m @ q)" if "prefix q (reply_bytes r)" "r \<in> {0x07, 0x08}" for q r
    using refusal_reply [OF assms that(2)] that(1) by simp
  have target: "emits m (read_target io atyp) (\<lambda>out. out = m) (\<lambda>_ out. out = m)" for atyp
    unfolding read_target_def
    by (rule emits_seq [where V' = "\<lambda>_ out. out = m"]) (intro emits_rules refl, simp, intro emits_rules refl)
  show ?thesis
    unfolding read_request_def send_reply_def
    by (intro emits_read_context_then m emits_if emits_bail emits_catch [OF target])
      (auto intro!: emits_write_then emits_bail emits_throw reply simp: socks_consts)
qed

lemma emits_handshake:
  "emits [] (handshake io) refusal
     (\<lambda>(host, port, user) out. out = (if user = None then [0x05, 0x00] else [0x05, 0x02, 0x01, 0x00]))"
  unfolding handshake_def
  by (rule emits_seq [OF emits_method], rule emits_seq [OF emits_request])
    (auto simp: accept_scripts_def intro: emits_ret)

end

text \<open>
  C15. For arbitrary client bytes the negotiation never reports success: if it fails, the
  client has received a prefix of a legal refusal (no-method, or a method selection and the
  reply 0x07 or 0x08); if it succeeds, exactly the method selection, with the auth status
  iff a username was read.
\<close>

theorem handshake_output:
  assumes "client_stream io unread sent" and "handshake io s = (r, s')"
  shows "\<exists>out. sent s' = sent s @ out \<and> (case r of Inl e \<Rightarrow> \<exists>script \<in> refusal_scripts. prefix out script
    | Inr (host, port, user) \<Rightarrow> out = (if user = None then [0x05, 0x00] else [0x05, 0x02, 0x01, 0x00]))"
proof -
  obtain out where "sent s' = sent s @ out" and "case r of Inl e \<Rightarrow> refusal ([] @ out)
      | Inr a \<Rightarrow> (case a of (host, port, user) \<Rightarrow>
          \<lambda>out. out = (if user = None then [0x05, 0x00] else [0x05, 0x02, 0x01, 0x00])) ([] @ out)"
    by (rule client_stream.emitsD [OF assms(1) client_stream.emits_handshake [OF assms(1)] assms(2)])
  then show ?thesis by (auto simp: refusal_def split: sum.splits)
qed

lemma example_bad_version:
  "\<exists>e s'. handshake conn_ops (example_conn [[4, 1, 0]]) = (Inl e, s')"
  by (simp add: handshake_def negotiate_method_def and_then_def with_context_def lift_io_def bail_run
      conn_defs example_conn_def numeral_2_eq_2 SOCKS5_def)

theorem handshake_output_witness:
  "\<exists>e s'. handshake conn_ops (example_conn [[4, 1, 0]]) = (Inl e, s')
     \<and> (\<exists>script \<in> refusal_scripts. prefix (tx s') script)"
proof -
  obtain e s' where run: "handshake conn_ops (example_conn [[4, 1, 0]]) = (Inl e, s')"
    using example_bad_version by blast
  from handshake_output [OF conn.client_stream_axioms run] run show ?thesis by (auto simp: example_conn_def)
qed

section \<open>Everything it accepts\<close>

text \<open>
  \<open>takes pre p V\<close>: with \<open>pre\<close> consumed already, if \<open>p\<close> ends with the value \<open>a\<close>, all that was
  consumed satisfies \<open>V a\<close>.
\<close>

context client_stream begin

definition takes :: "u8 list \<Rightarrow> ('s, 'a) prog \<Rightarrow> ('a \<Rightarrow> u8 list \<Rightarrow> bool) \<Rightarrow> bool" where
  "takes pre p V \<longleftrightarrow> (\<forall>s a s'. p s = (Inr a, s') \<longrightarrow> (\<exists>i. unread s = i @ unread s' \<and> V a (pre @ i)))"

lemma takesI:
  "(\<And>s a s'. p s = (Inr a, s') \<Longrightarrow> \<exists>i. unread s = i @ unread s' \<and> V a (pre @ i)) \<Longrightarrow> takes pre p V"
  unfolding takes_def by blast

lemma takesD:
  assumes "takes pre p V" and "p s = (Inr a, s')"
  obtains i where "unread s = i @ unread s'" and "V a (pre @ i)"
  using assms unfolding takes_def by blast

lemma takes_ret: "V a pre \<Longrightarrow> takes pre (ret a) V"
  by (rule takesI) (auto simp: prog_simps)

lemma takes_throw: "takes pre (throw e) V"
  by (rule takesI) (auto simp: prog_simps)

lemma takes_bail: "takes pre (bail m) V"
  by (simp add: bail_def takes_throw)

lemma takes_seq:
  assumes "takes pre p V'" and "\<And>a pre'. V' a pre' \<Longrightarrow> takes pre' (k a) V"
  shows "takes pre (and_then p k) V"
proof (rule takesI)
  fix s b u
  assume "and_then p k s = (Inr b, u)"
  then obtain a t where "p s = (Inr a, t)" and k: "k a t = (Inr b, u)" by (rule and_then_InrE)
  then obtain i where "unread s = i @ unread t" "V' a (pre @ i)" using takesD [OF assms(1)] by blast
  with takesD [OF assms(2) k] show "\<exists>i. unread s = i @ unread u \<and> V b (pre @ i)" by (metis append.assoc)
qed

lemma takes_read_then:
  assumes "\<And>x. length x = n \<Longrightarrow> takes (pre @ x) (k x) V"
  shows "takes pre (and_then (lift_io (read_exact io n)) k) V"
proof (rule takes_seq [where V' = "\<lambda>x pre'. length x = n \<and> pre' = pre @ x"])
  show "takes pre (lift_io (read_exact io n)) (\<lambda>x pre'. length x = n \<and> pre' = pre @ x)"
    by (rule takesI) (auto simp: lift_io_eq_Inr read_exact_Inr(3,5), frule read_exact_Inr(2), simp)
qed (use assms in auto)

lemma with_context_then_Inr:
  "and_then (with_context m p) k s = (Inr b, u) \<longleftrightarrow> and_then p k s = (Inr b, u)"
  by (auto simp: and_then_def with_context_def split: prod.splits sum.splits)

lemma takes_context_then: "takes pre (and_then p k) V \<Longrightarrow> takes pre (and_then (with_context m p) k) V"
  unfolding takes_def with_context_then_Inr .

lemma takes_write_then:
  assumes "takes pre (k ()) V"
  shows "takes pre (and_then (lift_io (write_all io b)) k) V"
proof (rule takes_seq [where V' = "\<lambda>_ pre'. pre' = pre"])
  show "takes pre (lift_io (write_all io b)) (\<lambda>_ pre'. pre' = pre)"
    by (rule takesI) (auto simp: lift_io_eq_Inr dest: write_all_ok)
qed (use assms in simp)

lemma takes_catch:
  assumes "takes pre p V" and "\<And>e s. \<exists>e' s'. h e s = (Inl e', s')"
  shows "takes pre (catch p h) V"
proof (rule takesI)
  fix s a s'
  assume "catch p h s = (Inr a, s')"
  then have "p s = (Inr a, s')"
    using assms(2) by (auto simp: catch_def split: prod.splits sum.splits) (metis Inl_Inr_False fst_conv)
  then show "\<exists>i. unread s = i @ unread s' \<and> V a (pre @ i)" using takesD [OF assms(1)] by blast
qed

lemma takes_if: "(b \<Longrightarrow> takes pre p V) \<Longrightarrow> (\<not> b \<Longrightarrow> takes pre q V) \<Longrightarrow> takes pre (if b then p else q) V"
  by simp

lemma takes_option:
  "(\<And>a. x = Some a \<Longrightarrow> takes pre (f a) V) \<Longrightarrow> (x = None \<Longrightarrow> takes pre p V) \<Longrightarrow>
   takes pre (case x of Some a \<Rightarrow> f a | None \<Rightarrow> p) V"
  by (cases x) simp_all

lemmas takes_rules = takes_ret takes_throw takes_bail takes_read_then takes_write_then takes_if
  takes_option takes_context_then

end

lemma length_1: "length x = 1 \<Longrightarrow> \<exists>a. x = [a]"
  by (cases x) auto

lemma length_2: "length x = 2 \<Longrightarrow> \<exists>a b. x = [a, b]"
  by (cases x; cases "tl x") auto

lemma length_4: "length x = 4 \<Longrightarrow> \<exists>a b c d. x = [a, b, c, d]"
  by (cases x; cases "tl x"; cases "tl (tl x)"; cases "tl (tl (tl x))") auto

lemma unat_u8_less: "unat (b :: u8) < 256"
  using unsigned_less [of b] by simp

lemma port_bytes_be16: "port_bytes (of_nat (be16 a b)) = [a, b]"
proof -
  have "be16 a b < 65536" using unat_u8_less [of a] unat_u8_less [of b] by (simp add: be16_def)
  then have "unat (of_nat (be16 a b) :: u16) = be16 a b" by (simp add: unsigned_of_nat take_bit_nat_eq_self)
  moreover have "be16 a b div 256 = unat a" "be16 a b mod 256 = unat b"
    using unat_u8_less [of b] by (simp_all add: be16_def)
  ultimately show ?thesis by (simp add: port_bytes_def)
qed

lemma from_utf8_dest:
  assumes "from_utf8 bs = Some h" and "length bs = unat (n :: u8)"
  shows "utf8_encode h = bs" and "list_all is_scalar h" and "str_len h < 256" and "of_nat (str_len h) = n"
  using from_utf8_sound [OF assms(1)] assms(2) unat_u8_less [of n] by (simp_all add: str_len_def)

context client_stream begin

lemma userpass_consumed:
  assumes "length ver = 1" and "ver ! 0 = AUTH_USERPASS_VER" and "length ulen = 1"
    and "length uname = unat (ulen ! 0)" and "length plen = 1" and "length pw = unat (plen ! 0)"
    and "from_utf8 uname = Some u"
  shows "\<exists>pw'. list_all is_scalar u \<and> str_len u < 256 \<and> length pw' < 256
     \<and> ((((pre @ ver) @ ulen) @ uname) @ plen) @ pw = pre @ userpass_bytes u pw'"
proof -
  obtain v n k where v: "ver = [v]" and n: "ulen = [n]" and k: "plen = [k]"
    using length_1 [OF assms(1)] length_1 [OF assms(3)] length_1 [OF assms(5)] by blast
  moreover have "v = AUTH_USERPASS_VER" using assms(2) v by simp
  moreover have "length uname = unat n" using assms(4) n by simp
  ultimately show ?thesis
    using assms(6) from_utf8_dest [OF assms(7)] k unat_u8_less [of k]
    by (intro exI [of _ pw]) (simp add: userpass_bytes_def)
qed

lemma takes_userpass:
  "takes pre (read_userpass io) (\<lambda>u out. \<exists>pw. list_all is_scalar u \<and> str_len u < 256 \<and> length pw < 256
     \<and> out = pre @ userpass_bytes u pw)"
  unfolding read_userpass_def
  by (intro takes_rules) (simp only: not_not, rule userpass_consumed)

lemma takes_port:
  "takes pre (and_then (lift_io (read_exact io 2)) (\<lambda>port. ret (h, of_nat (be16 (port ! 0) (port ! 1)))))
     (\<lambda>(host, port) out. host = (h :: rstr) \<and> out = pre @ port_bytes port)"
  by (intro takes_read_then takes_ret) (auto dest!: length_2 simp: port_bytes_be16)

lemma takes_target:
  "takes pre (read_target io atyp)
     (\<lambda>(host, port) out. \<exists>d. dest_ok d \<and> atyp = dest_atyp d \<and> host = dest_host d
        \<and> out = pre @ dest_bytes d @ port_bytes port)"
proof -
  have v4: "takes pre (and_then (lift_io (read_exact io 4)) (\<lambda>a. ret (ipv4_display (ipv4_of a))))
      (\<lambda>h out. \<exists>d. dest_ok d \<and> ATYP_IPV4 = dest_atyp d \<and> h = dest_host d \<and> out = pre @ dest_bytes d)"
    by (intro takes_rules, drule length_4, elim exE)
      (rule_tac x = "DestV4 (Ipv4 a b c d)" in exI, simp del: ipv4_display.simps)
  have v6: "takes pre (and_then (lift_io (read_exact io 16)) (\<lambda>a. ret (ipv6_display (Ipv6 a))))
      (\<lambda>h out. \<exists>d. dest_ok d \<and> ATYP_IPV6 = dest_atyp d \<and> h = dest_host d \<and> out = pre @ dest_bytes d)"
    by (intro takes_rules) (rule_tac x = "DestV6 (Ipv6 x)" in exI, simp add: ipv6_wf_def)
  have name: "takes pre (and_then (lift_io (read_exact io 1)) (\<lambda>len.
      and_then (lift_io (read_exact io (unat (len ! 0)))) (\<lambda>name.
      case from_utf8 name of Some h \<Rightarrow> ret h
        | None \<Rightarrow> throw [Text (lit ''SOCKS domain name is not UTF-8''), Utf8Cause])))
      (\<lambda>h out. \<exists>d. dest_ok d \<and> ATYP_DOMAIN = dest_atyp d \<and> h = dest_host d \<and> out = pre @ dest_bytes d)"
  proof (intro takes_rules)
    fix len name :: "u8 list" and h
    assume len: "length len = 1" "length name = unat (len ! 0)" and h: "from_utf8 name = Some h"
    obtain n where "len = [n]" using length_1 [OF len(1)] by blast
    moreover from this len(2) have "length name = unat n" by simp
    ultimately
    show "\<exists>d. dest_ok d \<and> ATYP_DOMAIN = dest_atyp d \<and> h = dest_host d \<and> (pre @ len) @ name = pre @ dest_bytes d"
      using from_utf8_dest [OF h] by (intro exI [of _ "DestName h"]) simp
  qed
  have "takes pre (if atyp = ATYP_IPV4 then
          and_then (lift_io (read_exact io 4)) (\<lambda>a. ret (ipv4_display (ipv4_of a)))
        else if atyp = ATYP_IPV6 then
          and_then (lift_io (read_exact io 16)) (\<lambda>a. ret (ipv6_display (Ipv6 a)))
        else if atyp = ATYP_DOMAIN then
          and_then (lift_io (read_exact io 1)) (\<lambda>len.
          and_then (lift_io (read_exact io (unat (len ! 0)))) (\<lambda>name.
          case from_utf8 name of Some h \<Rightarrow> ret h
          | None \<Rightarrow> throw [Text (lit ''SOCKS domain name is not UTF-8''), Utf8Cause]))
        else bail (lit ''unsupported SOCKS address type '' @ dec_byte atyp))
      (\<lambda>h out. \<exists>d. dest_ok d \<and> atyp = dest_atyp d \<and> h = dest_host d \<and> out = pre @ dest_bytes d)"
    by (intro takes_if takes_bail) (simp_all only: v4 v6 name)
  then show ?thesis
    unfolding read_target_def
  proof (rule takes_seq)
    fix h pre'
    assume "\<exists>d. dest_ok d \<and> atyp = dest_atyp d \<and> h = dest_host d \<and> pre' = pre @ dest_bytes d"
    then show "takes pre' (and_then (lift_io (read_exact io 2)) (\<lambda>port. ret (h, of_nat (be16 (port ! 0) (port ! 1)))))
        (\<lambda>(host, port) out. \<exists>d. dest_ok d \<and> atyp = dest_atyp d \<and> host = dest_host d
          \<and> out = pre @ dest_bytes d @ port_bytes port)"
      using takes_port [of pre' h] unfolding takes_def by fastforce
  qed
qed

lemma takes_request:
  "takes pre (read_request io) (\<lambda>(host, port) out. \<exists>d rsv. dest_ok d \<and> host = dest_host d
     \<and> out = pre @ request_bytes CMD_CONNECT rsv d port)"
  unfolding read_request_def
proof (intro takes_context_then takes_read_then takes_if takes_bail takes_catch)
  fix req :: "u8 list"
  assume req: "length req = 4" "\<not> req ! 0 \<noteq> SOCKS5" "\<not> req ! 1 \<noteq> CMD_CONNECT"
  obtain a b rsv t where "req = [a, b, rsv, t]" using length_4 [OF req(1)] by blast
  with req have "req = [SOCKS5, CMD_CONNECT, rsv, t]" "req ! 3 = t" by simp_all
  then show "takes (pre @ req) (read_target io (req ! 3)) (\<lambda>(host, port) out. \<exists>d rsv. dest_ok d \<and>
      host = dest_host d \<and> out = pre @ request_bytes CMD_CONNECT rsv d port)"
    using takes_target [of "pre @ req" t] unfolding takes_def request_bytes_def by fastforce
next
  show "takes pre' (and_then (send_reply io REP_CMD_NOT_SUPPORTED) (\<lambda>_. bail m)) V" for pre' m V
    unfolding send_reply_def by (intro takes_rules)
  show "\<exists>e' s'. and_then (send_reply io REP_ATYP_NOT_SUPPORTED) (\<lambda>_. throw e) s = (Inl e', s')" for e s
    by (auto simp: and_then_def throw_def split: prod.split sum.split)
qed

lemma takes_method:
  "takes pre (negotiate_method io) (\<lambda>user out. \<exists>methods au. length methods < 256 \<and> auth_ok methods au
     \<and> user = auth_user au \<and> out = pre @ greeting_bytes methods @ auth_bytes au)"
  unfolding negotiate_method_def
proof (intro takes_context_then takes_read_then takes_if takes_bail)
  fix greeting methods :: "u8 list"
  let ?V = "\<lambda>user out. \<exists>methods au. length methods < 256 \<and> auth_ok methods au
     \<and> user = auth_user au \<and> out = pre @ greeting_bytes methods @ auth_bytes au"
  assume len: "length greeting = 2" "\<not> greeting ! 0 \<noteq> SOCKS5" "length methods = unat (greeting ! 1)"
  obtain a n where "greeting = [a, n]" using length_2 [OF len(1)] by blast
  with len have greet: "pre @ greeting @ methods = pre @ greeting_bytes methods" and short: "length methods < 256"
    using unat_u8_less [of n] by (simp_all add: greeting_bytes_def)
  show "takes ((pre @ greeting) @ methods) (and_then (lift_io (write_all io [SOCKS5, METHOD_USERPASS]))
      (\<lambda>_. and_then (read_userpass io) (\<lambda>user. and_then (lift_io (write_all io [AUTH_USERPASS_VER, REP_SUCCESS]))
        (\<lambda>_. ret (Some user))))) ?V" if "METHOD_USERPASS \<in> set methods"
  proof (intro takes_write_then, rule takes_seq [OF takes_userpass], intro takes_write_then takes_ret)
    fix u out
    assume "\<exists>pw. list_all is_scalar u \<and> str_len u < 256 \<and> length pw < 256
      \<and> out = ((pre @ greeting) @ methods) @ userpass_bytes u pw"
    then have "\<exists>pw. auth_ok methods (UserPass u pw)
        \<and> out = pre @ greeting_bytes methods @ auth_bytes (UserPass u pw)"
      using that greet by auto
    with short show "?V (Some u) out" by (metis auth_user.simps(2))
  qed
  show "takes ((pre @ greeting) @ methods) (and_then (lift_io (write_all io [SOCKS5, METHOD_NOAUTH]))
      (\<lambda>_. ret None)) ?V" if "METHOD_USERPASS \<notin> set methods" "METHOD_NOAUTH \<in> set methods"
    using that greet short
    by (intro takes_write_then takes_ret exI [of _ methods] exI [of _ Anonymous]) simp
  show "takes ((pre @ greeting) @ methods) (and_then (lift_io (write_all io [SOCKS5, METHOD_NONE]))
      (\<lambda>_. bail m)) ?V" for m
    by (intro takes_write_then takes_bail)
qed

lemma takes_handshake:
  "takes pre (handshake io) (\<lambda>(host, port, user) out. \<exists>methods au d rsv. length methods < 256
     \<and> auth_ok methods au \<and> dest_ok d \<and> host = dest_host d \<and> user = auth_user au
     \<and> out = pre @ greeting_bytes methods @ auth_bytes au @ request_bytes CMD_CONNECT rsv d port)"
  unfolding handshake_def
proof (rule takes_seq [OF takes_method], rule takes_seq [OF takes_request])
  fix user pre1 a pre2
  assume "\<exists>methods au. length methods < 256 \<and> auth_ok methods au \<and> user = auth_user au
      \<and> pre1 = pre @ greeting_bytes methods @ auth_bytes au"
    and "(case a of (host, port) \<Rightarrow> \<lambda>out. \<exists>d rsv. dest_ok d \<and> host = dest_host d
      \<and> out = pre1 @ request_bytes CMD_CONNECT rsv d port) pre2"
  then show "takes pre2 (case a of (host, port) \<Rightarrow> ret (host, port, user))
      (\<lambda>(host, port, user) out. \<exists>methods au d rsv. length methods < 256
     \<and> auth_ok methods au \<and> dest_ok d \<and> host = dest_host d \<and> user = auth_user au
     \<and> out = pre @ greeting_bytes methods @ auth_bytes au @ request_bytes CMD_CONNECT rsv d port)"
    by (cases a) (force intro!: takes_ret)
qed

end

text \<open>
  C16. Only well-formed requests are accepted: if the negotiation returns a destination, then
  the bytes it consumed are the encoding of a greeting, of credentials when the username is
  returned, and of a CONNECT request for that destination and port. With
  \<open>handshake_accepts\<close> this makes the accepted inputs exactly the encodings.
\<close>

theorem handshake_sound:
  assumes "client_stream io unread sent" and "handshake io s = (Inr (host, port, user), s')"
  shows "\<exists>methods au d rsv. length methods < 256 \<and> auth_ok methods au \<and> dest_ok d
    \<and> host = dest_host d \<and> user = auth_user au
    \<and> unread s = greeting_bytes methods @ auth_bytes au @ request_bytes CMD_CONNECT rsv d port @ unread s'"
proof -
  obtain i where "unread s = i @ unread s'" and "(case (host, port, user) of (host, port, user) \<Rightarrow>
      \<lambda>out. \<exists>methods au d rsv. length methods < 256 \<and> auth_ok methods au \<and> dest_ok d \<and> host = dest_host d
        \<and> user = auth_user au
        \<and> out = [] @ greeting_bytes methods @ auth_bytes au @ request_bytes CMD_CONNECT rsv d port) ([] @ i)"
    by (rule client_stream.takesD [OF assms(1) client_stream.takes_handshake [OF assms(1)] assms(2)])
  then show ?thesis by fastforce
qed

definition example_v4_request :: "u8 list" where
  "example_v4_request = [5, 1, 0, 5, 1, 0, 1, 192, 0, 2, 1, 0, 80]"

lemma example_v4_bytes:
  "example_v4_request = (greeting_bytes [0] @ auth_bytes Anonymous) @
     request_bytes CMD_CONNECT 0 (DestV4 (Ipv4 192 0 2 1)) 80"
  by (simp add: example_v4_request_def greeting_bytes_def request_bytes_def port_bytes_def socks_consts)

lemma example_v4_run:
  "\<exists>s'. handshake conn_ops (example_conn [example_v4_request])
     = (Inr (ipv4_display (Ipv4 192 0 2 1), 80, None), s')"
proof -
  have "conn.runs (handshake conn_ops) example_v4_request (auth_reply Anonymous @ [])
      (Inr (ipv4_display (Ipv4 192 0 2 1), 80, None))"
    using conn.runs_handshake [OF _ _ conn.runs_request, of "[0]" Anonymous "DestV4 (Ipv4 192 0 2 1)" 0 80]
    by (simp add: example_v4_bytes socks_consts del: ipv4_display.simps)
  moreover have "conn_unread (example_conn [example_v4_request]) = example_v4_request @ []"
    by (simp add: example_conn_def conn_unread_def)
  moreover have "length (auth_reply Anonymous @ []) \<le> tx_room (example_conn [example_v4_request])"
    by (simp add: example_conn_def)
  ultimately show ?thesis unfolding conn.runs_def by blast
qed

theorem handshake_sound_witness:
  "\<exists>s' methods au d rsv. handshake conn_ops (example_conn [example_v4_request])
      = (Inr (dest_host d, 80, auth_user au), s')
    \<and> example_v4_request = greeting_bytes methods @ auth_bytes au @ request_bytes CMD_CONNECT rsv d 80 @ conn_unread s'"
proof -
  obtain s' where "handshake conn_ops (example_conn [example_v4_request])
      = (Inr (ipv4_display (Ipv4 192 0 2 1), 80, None), s')"
    using example_v4_run by blast
  from handshake_sound [OF conn.client_stream_axioms this] this show ?thesis
    by (fastforce simp: example_conn_def conn_unread_def)
qed

end
