(* ===== verification/Socks_Connection.thy ===== *)
theory Socks_Connection
  imports Socks_Safety
begin

text \<open>
  One connection of \<open>socks/server.rs\<close> from start to end: failing closed, what the client can
  have received, what is counted, and that the registry loses the row again.
\<close>

section \<open>The parts of a connection\<close>

text \<open>What any run of the copy does to the shared state, for any stream whatsoever.\<close>

lemma metered_step_shared:
  "metered_step io a x (s, w) = (t, s', w') \<Longrightarrow> \<exists>up down. w' = add_traffic a up down w"
proof (cases x)
  case (CopyRead buf)
  have "w' = w \<or> (\<exists>n. w' = meter_upstream a n w)"
    if "metered_step io a x (s, w) = (t, s', w')"
    using that CopyRead
    by (auto simp: metered_poll_read_def Let_def split: prod.splits poll.splits sum.splits if_splits)
  moreover assume "metered_step io a x (s, w) = (t, s', w')"
  ultimately show ?thesis by (metis add_traffic_0 add_traffic_def meter_0(2))
next
  case (CopyWrite buf)
  have "w' = w \<or> (\<exists>n. w' = meter_client a n w)"
    if "metered_step io a x (s, w) = (t, s', w')"
    using that CopyWrite
    by (auto simp: metered_poll_write_def split: prod.splits poll.splits sum.splits)
  moreover assume "metered_step io a x (s, w) = (t, s', w')"
  ultimately show ?thesis by (metis add_traffic_0 add_traffic_def meter_0(1))
qed (auto intro!: exI [of _ 0])

lemma metered_run_shared:
  "metered_run io a xs (s, w) = (t, s', w') \<Longrightarrow> \<exists>up down. w' = add_traffic a up down w"
proof (induction xs arbitrary: s w t)
  case Nil
  then show ?case by (metis add_traffic_0 metered_run.simps(1) prod.inject)
next
  case (Cons x xs)
  obtain t1 s1 w1 where one: "metered_step io a x (s, w) = (t1, s1, w1)" by (metis prod_cases3)
  then obtain t2 where "metered_run io a xs (s1, w1) = (t2, s', w')"
    using Cons.prems by (auto split: prod.splits)
  with Cons.IH metered_step_shared [OF one] show ?case by (metis add_traffic_add)
qed

text \<open>The world after \<open>begin_connect\<close>.\<close>

lemma begin_connect_world:
  assumes "begin_connect fresh peer host port user w = ((a, t), w1)"
  shows "a = length (heap (streams w))" and "t = fst (isolation_token fresh user (tor w))"
    and "tor w1 = snd (isolation_token fresh user (tor w))"
    and "streams w1 = snd (register (clock w) peer (target_text host port) user (streams w))"
    and "totals w1 = count_connect (totals w)"
  using assms by (auto simp: begin_connect_def Let_def register_addr split: prod.splits dest: arg_cong [where f = fst])

lemma isolation_token_client [simp]: "client (snd (isolation_token fresh user m)) = client m"
  by (simp add: isolation_token_def Let_def split: isolation_policy.split option.split)

lemma tor_failed_world:
  "tor_failed io e s w = (r, s', w') \<Longrightarrow>
   \<exists>e'. r = Inl e' \<and> w' = w\<lparr>totals := count_failed (totals w)\<rparr> \<and> s' = snd (send_reply io REP_GENERAL_FAILURE s)"
  by (auto simp: tor_failed_def Let_def split: prod.splits sum.splits)

context client_stream begin

lemma send_reply_sent:
  "send_reply io rep s = (r, s') \<Longrightarrow>
   \<exists>out. sent s' = sent s @ out \<and> (case r of Inl e \<Rightarrow> prefix out (reply_bytes rep) | Inr u \<Rightarrow> out = reply_bytes rep)"
  by (auto simp: send_reply_def lift_io_def split: prod.splits sum.splits dest: write_all_ok write_all_err)

end

section \<open>The runs of a connection\<close>

lemma proxy_courses:
  assumes "proxy io copy a (connect_result answer) s w = (r, s', w')"
  obtains (failed) e where "answer = Inl e"
      and "tor_failed io (Text (lit ''opening anonymised Tor stream'') # e) s w = (r, s', w')"
  | (unanswered) up e where "answer = Inr up" and "send_reply io REP_SUCCESS s = (Inl e, s')" and "r = Inl e" and "w' = w"
  | (spliced) up s1 ops res bytes where "answer = Inr up" and "send_reply io REP_SUCCESS s = (Inr (), s1)"
      and "copy up s1 = (ops, res)" and "metered_run io a ops (s1, w\<lparr>totals := count_ok (totals w)\<rparr>) = (bytes, s', w')"
      and "r = splice_result res"
proof (cases answer)
  case (Inl e)
  with assms failed show ?thesis by (simp add: proxy_def connect_result_def)
next
  case (Inr up)
  obtain rep s1 where rep: "send_reply io REP_SUCCESS s = (rep, s1)" by fastforce
  show ?thesis
  proof (cases rep)
    case (Inl e)
    with assms rep Inr have "r = Inl e" "s' = s1" "w' = w"
      by (simp_all add: proxy_def connect_result_def tor_connected_def)
    with unanswered [of up e] rep Inr \<open>rep = Inl e\<close> show ?thesis by simp
  next
    case (Inr u)
    obtain ops res where c: "copy up s1 = (ops, res)" by fastforce
    obtain bytes s2 w2 where m: "metered_run io a ops (s1, w\<lparr>totals := count_ok (totals w)\<rparr>) = (bytes, s2, w2)"
      by (metis prod.collapse)
    with assms rep Inr \<open>answer = Inr up\<close> c have "r = splice_result res" "s' = s2" "w' = w2"
      by (simp_all add: proxy_def connect_result_def tor_connected_def)
    with spliced [OF \<open>answer = Inr up\<close>] rep Inr c m show ?thesis by simp
  qed
qed

text \<open>
  \<open>handle\<close> has four courses: the negotiation fails; arti fails; the success reply cannot be
  delivered; the streams are spliced.
\<close>

lemma handle_courses:
  assumes "handle io fresh connect_with_prefs copy peer s w = (r, s', w')"
  obtains (refused) e where "handshake io s = (Inl e, s')" and "r = Inl e" and "w' = w"
  | (failed) host port user s1 a t w1 e w2 where "handshake io s = (Inr (host, port, user), s1)"
      and "begin_connect fresh peer host port user w = ((a, t), w1)"
      and "connect_with_prefs (client (tor w)) (host, port) t = Inl e"
      and "tor_failed io (Text (lit ''opening anonymised Tor stream'') # e) s1 w1 = (r, s', w2)"
      and "w' = w2\<lparr>streams := drop_handle a (streams w2)\<rparr>"
  | (unanswered) host port user s1 a t w1 up e where "handshake io s = (Inr (host, port, user), s1)"
      and "begin_connect fresh peer host port user w = ((a, t), w1)"
      and "connect_with_prefs (client (tor w)) (host, port) t = Inr up"
      and "send_reply io REP_SUCCESS s1 = (Inl e, s')" and "r = Inl e"
      and "w' = w1\<lparr>streams := drop_handle a (streams w1)\<rparr>"
  | (spliced) host port user s1 a t w1 up s2 ops res bytes w3 where "handshake io s = (Inr (host, port, user), s1)"
      and "begin_connect fresh peer host port user w = ((a, t), w1)"
      and "connect_with_prefs (client (tor w)) (host, port) t = Inr up"
      and "send_reply io REP_SUCCESS s1 = (Inr (), s2)" and "copy up s2 = (ops, res)"
      and "metered_run io a ops (s2, w1\<lparr>totals := count_ok (totals w1)\<rparr>) = (bytes, s', w3)"
      and "r = splice_result res" and "w' = w3\<lparr>streams := drop_handle a (streams w3)\<rparr>"
proof (cases "handshake io s")
  case (Pair h s1)
  show ?thesis
  proof (cases h)
    case (Inl e)
    with Pair assms refused show ?thesis by (simp add: handle_def)
  next
    case (Inr hpu)
    obtain host port user where h: "hpu = (host, port, user)" by (cases hpu)
    obtain a t w1 where b: "begin_connect fresh peer host port user w = ((a, t), w1)" by (metis prod_cases3 surj_pair)
    have client: "client (tor w1) = client (tor w)" using begin_connect_world(3) [OF b] by simp
    obtain r2 s2 w2 where p: "proxy io copy a (connect_result (connect_with_prefs (client (tor w)) (host, port) t)) s1 w1
        = (r2, s2, w2)" by (metis prod_cases3)
    with assms Pair Inr h b client
    have res: "r = r2" "s' = s2" "w' = w2\<lparr>streams := drop_handle a (streams w2)\<rparr>"
      by (auto simp: handle_def Let_def)
    note hs = Pair [unfolded Inr h]
    from p show ?thesis
    proof (cases rule: proxy_courses)
      case (failed e)
      with that(2) [OF hs b] res show ?thesis by simp
    next
      case (unanswered up e)
      with that(3) [OF hs b] res show ?thesis by simp
    next
      case (spliced up s3 ops rs bytes)
      with that(4) [OF hs b] res show ?thesis by simp
    qed
  qed
qed

section \<open>The registry and the isolation map\<close>

lemma add_traffic_wf: "registry_wf (streams w) \<Longrightarrow> registry_wf (streams (add_traffic a up down w))"
  by (simp add: add_traffic_def meter_upstream_def meter_client_def entry_client_wf entry_upstream_wf)

lemma add_traffic_live [simp]: "live (streams (add_traffic a up down w)) = live (streams w)"
  by (simp add: add_traffic_def meter_upstream_def meter_client_def)

lemma add_traffic_rest [simp]:
  "tor (add_traffic a up down w) = tor w" "clock (add_traffic a up down w) = clock w"
  by (simp_all add: add_traffic_def meter_upstream_def meter_client_def)

text \<open>Registering a row, counting any traffic on it and dropping its handle.\<close>

lemma registered_dropped:
  assumes "registry_wf (streams w)" and "length (heap (streams w)) < 2 ^ 64"
    and "begin_connect fresh peer host port user w = ((a, t), w1)"
  shows "registry_wf (drop_handle a (streams (add_traffic b up down (w1\<lparr>totals := m\<rparr>))))
    \<and> live (drop_handle a (streams (add_traffic b up down (w1\<lparr>totals := m\<rparr>)))) = live (streams w)"
proof -
  note b = begin_connect_world [OF assms(3)]
  let ?g = "streams (add_traffic b up down (w1\<lparr>totals := m\<rparr>))"
  have len: "length (heap ?g) = Suc (length (heap (streams w)))"
    using b by (simp add: add_traffic_fields register_heap)
  have wf: "registry_wf ?g" using add_traffic_wf [of "w1\<lparr>totals := m\<rparr>"] b(4) register_wf [OF assms(1)] by simp
  moreover have "live ?g = insert a (live (streams w))" using b live_register [OF assms(1,2)] by simp
  moreover have "live (drop_handle a ?g) = live ?g - {a}"
    by (rule live_drop [OF wf]) (use len b(1) assms(2) in auto)
  moreover have "a \<notin> live (streams w)" using live_bound [OF assms(1)] b(1) by blast
  ultimately show ?thesis using drop_wf by auto
qed

lemma handle_registry:
  assumes "registry_wf (streams w)" and "length (heap (streams w)) < 2 ^ 64"
    and "inj fresh" and "manager_wf fresh (tor w)"
    and "handle io fresh connect_with_prefs copy peer s w = (r, s', w')"
  shows "registry_wf (streams w') \<and> live (streams w') = live (streams w) \<and> manager_wf fresh (tor w')
    \<and> policy (tor w') = policy (tor w)"
  using assms(5)
proof (cases rule: handle_courses)
  case refused
  with assms show ?thesis by simp
next
  case (failed host port user s1 a t w1 e w2)
  have w2: "w2 = w1\<lparr>totals := count_failed (totals w1)\<rparr>" using tor_failed_world [OF failed(4)] by blast
  with failed registered_dropped [OF assms(1,2) failed(2), of 0 0 0] begin_connect_world(3) [OF failed(2)]
    isolation_token_wf [OF assms(3,4)]
  show ?thesis by simp
next
  case (unanswered host port user s1 a t w1 up e)
  with registered_dropped [OF assms(1,2) unanswered(2), of 0 0 0 "totals w1"]
    begin_connect_world(3) [OF unanswered(2)] isolation_token_wf [OF assms(3,4)]
  show ?thesis by simp
next
  case (spliced host port user s1 a t w1 up s2 ops res bytes w3)
  obtain n m where w3: "w3 = add_traffic a n m (w1\<lparr>totals := count_ok (totals w1)\<rparr>)"
    using metered_run_shared [OF spliced(6)] by blast
  with spliced registered_dropped [OF assms(1,2) spliced(2), of a n m]
    begin_connect_world(3) [OF spliced(2)] isolation_token_wf [OF assms(3,4)]
  show ?thesis by simp
qed

section \<open>What the client gets and what is counted\<close>

context client_stream begin

lemma handshake_sent:
  assumes "handshake io s = (Inr (host, port, user), s1)"
  obtains m where "m \<in> accept_scripts" and "sent s1 = sent s @ m"
proof -
  obtain out where "sent s1 = sent s @ out" and "out \<in> accept_scripts"
    by (rule emitsD [OF emits_handshake assms]) (auto simp: accept_scripts_def split: if_splits)
  with that show thesis by blast
qed

lemma handshake_failed_sent:
  "handshake io s = (Inl e, s1) \<Longrightarrow> \<exists>out. sent s1 = sent s @ out \<and> refusal out"
  by (rule emitsD [OF emits_handshake]) auto

lemma tor_failed_sent:
  assumes "tor_failed io e s w = (r, s', w')"
  shows "\<exists>q. prefix q (reply_bytes REP_GENERAL_FAILURE) \<and> sent s' = sent s @ q"
proof -
  obtain x t where t: "send_reply io REP_GENERAL_FAILURE s = (x, t)" by fastforce
  with send_reply_sent [OF t] tor_failed_world [OF assms] show ?thesis by (cases x) auto
qed

lemma handle_outcome:
  assumes "handle io fresh connect_with_prefs copy peer s w = (r, s', w')"
    and "\<And>up c. list_all copy_op_ok (fst (copy up c))"
  shows "\<exists>out. sent s' = sent s @ out \<and>
    ((\<exists>e. r = Inl e) \<and> w' = w \<and> refusal out
     \<or> (\<exists>m \<in> accept_scripts. \<exists>q e. r = Inl e \<and> out = m @ q \<and> prefix q (reply_bytes REP_GENERAL_FAILURE)
         \<and> totals w' = count_failed (count_connect (totals w)))
     \<or> (\<exists>m \<in> accept_scripts. \<exists>q e. r = Inl e \<and> out = m @ q \<and> prefix q (reply_bytes REP_SUCCESS)
         \<and> totals w' = count_connect (totals w))
     \<or> (\<exists>m \<in> accept_scripts. \<exists>s2 up ops res ups downs. send_reply io REP_SUCCESS (snd (handshake io s)) = (Inr (), s2)
         \<and> copy up s2 = (ops, res) \<and> plain_run io ops s2 = ((ups, downs), s') \<and> r = splice_result res
         \<and> out = m @ reply_bytes REP_SUCCESS @ downs
         \<and> totals w' = count_client (of_nat (length downs)) (count_upstream (of_nat (length ups))
              (count_ok (count_connect (totals w))))))"
  using assms(1)
proof (cases rule: handle_courses)
  case (refused e)
  obtain out where "sent s' = sent s @ out" "refusal out" using handshake_failed_sent [OF refused(1)] by blast
  with refused show ?thesis by (intro exI [of _ out]) simp
next
  case (failed host port user s1 a t w1 e w2)
  obtain m where m: "m \<in> accept_scripts" "sent s1 = sent s @ m" by (rule handshake_sent [OF failed(1)])
  obtain q where q: "prefix q (reply_bytes REP_GENERAL_FAILURE)" "sent s' = sent s1 @ q"
    using tor_failed_sent [OF failed(4)] by blast
  have "totals w' = count_failed (count_connect (totals w))" "\<exists>e'. r = Inl e'"
    using tor_failed_world [OF failed(4)] failed(5) begin_connect_world(5) [OF failed(2)] by auto
  moreover have "sent s' = sent s @ m @ q" using m q by simp
  ultimately have "\<exists>m \<in> accept_scripts. \<exists>q e. r = Inl e \<and> sent s' = sent s @ m @ q
      \<and> prefix q (reply_bytes REP_GENERAL_FAILURE) \<and> totals w' = count_failed (count_connect (totals w))"
    using m(1) q(1) by blast
  then show ?thesis by (elim bexE exE conjE) (intro exI conjI, assumption, rule disjI2 [OF disjI1], blast)
next
  case (unanswered host port user s1 a t w1 up e)
  obtain m where m: "m \<in> accept_scripts" "sent s1 = sent s @ m" by (rule handshake_sent [OF unanswered(1)])
  obtain q where q: "prefix q (reply_bytes REP_SUCCESS)" "sent s' = sent s1 @ q"
    using send_reply_sent [OF unanswered(4)] by auto
  have "totals w' = count_connect (totals w)"
    using unanswered(6) begin_connect_world(5) [OF unanswered(2)] by simp
  moreover have "sent s' = sent s @ m @ q" using m q by simp
  ultimately have "\<exists>m \<in> accept_scripts. \<exists>q e. r = Inl e \<and> sent s' = sent s @ m @ q
      \<and> prefix q (reply_bytes REP_SUCCESS) \<and> totals w' = count_connect (totals w)"
    using m(1) q(1) unanswered(5) by blast
  then show ?thesis by (elim bexE exE conjE) (intro exI conjI, assumption, rule disjI2 [OF disjI2 [OF disjI1]], blast)
next
  case (spliced host port user s1 a t w1 up s2 ops res bytes w3)
  obtain m where m: "m \<in> accept_scripts" "sent s1 = sent s @ m" by (rule handshake_sent [OF spliced(1)])
  have reply: "sent s2 = sent s1 @ reply_bytes REP_SUCCESS" using send_reply_sent [OF spliced(4)] by auto
  obtain ups downs where bytes: "bytes = (ups, downs)" by (cases bytes)
  have "list_all copy_op_ok ops" using assms(2) [of up s2] spliced(5) by simp
  note run = metered_run_counts [OF spliced(6) [unfolded bytes] this]
  then have "totals w' = count_client (of_nat (length downs)) (count_upstream (of_nat (length ups))
      (count_ok (count_connect (totals w))))"
    using spliced(8) begin_connect_world(5) [OF spliced(2)]
    by (simp add: add_traffic_fields metrics_defs)
  moreover have "sent s' = sent s @ m @ reply_bytes REP_SUCCESS @ downs" using m reply run by simp
  moreover have "plain_run io ops s2 = ((ups, downs), s')"
    by (rule metered_run_plain [OF spliced(6) [unfolded bytes]])
  moreover have "send_reply io REP_SUCCESS (snd (handshake io s)) = (Inr (), s2)" using spliced(1,4) by simp
  ultimately have "\<exists>m \<in> accept_scripts. \<exists>s2 up ops res ups downs. send_reply io REP_SUCCESS (snd (handshake io s)) = (Inr (), s2)
      \<and> copy up s2 = (ops, res) \<and> plain_run io ops s2 = ((ups, downs), s') \<and> r = splice_result res
      \<and> sent s' = sent s @ m @ reply_bytes REP_SUCCESS @ downs
      \<and> totals w' = count_client (of_nat (length downs)) (count_upstream (of_nat (length ups))
           (count_ok (count_connect (totals w))))"
    using m(1) spliced(5,7) by blast
  then show ?thesis
    by (elim bexE exE conjE) (intro exI conjI, assumption, rule disjI2 [OF disjI2 [OF disjI2]], blast)
qed

end

lemma handle_tor_error:
  assumes "handshake io s = (Inr (host, port, user), s1)"
    and "begin_connect fresh peer host port user w = ((a, t), w1)"
    and "connect_with_prefs (client (tor w)) (host, port) t = Inl e"
  shows "handle io fresh connect_with_prefs copy peer s w =
        (case tor_failed io (Text (lit ''opening anonymised Tor stream'') # e) s1 w1 of
           (r, s2, w2) \<Rightarrow> (r, s2, w2\<lparr>streams := drop_handle a (streams w2)\<rparr>))"
proof -
  have "client (tor w1) = client (tor w)" using begin_connect_world(3) [OF assms(2)] by simp
  with assms show ?thesis by (simp add: handle_def proxy_def connect_result_def)
qed

text \<open>
  C1. Failing closed: when arti cannot open the stream for the requested destination and the
  caller's token, the client receives after the negotiation at most the general-failure
  reply, the connection ends with an error, exactly the total and the failure counters go up
  by one, and nothing depends on the splice: no byte is ever relayed.
\<close>

theorem fail_closed:
  assumes "client_stream io unread sent" and "handshake io s = (Inr (host, port, user), s1)"
    and "connect_with_prefs (client (tor w)) (host, port) (fst (isolation_token fresh user (tor w))) = Inl e"
    and "handle io fresh connect_with_prefs copy peer s w = (r, s', w')"
  shows "(\<exists>e'. r = Inl e')
    \<and> (\<exists>q. prefix q [0x05, 0x01, 0, 1, 0, 0, 0, 0, 0, 0] \<and> sent s' = sent s1 @ q)
    \<and> totals w' = (totals w)\<lparr>connects_total := connects_total (totals w) + 1,
         connects_failed := connects_failed (totals w) + 1\<rparr>
    \<and> (\<forall>copy'. handle io fresh connect_with_prefs copy' peer s w = (r, s', w'))"
proof -
  obtain a t w1 where b: "begin_connect fresh peer host port user w = ((a, t), w1)"
    by (metis prod_cases3 surj_pair)
  have "connect_with_prefs (client (tor w)) (host, port) t = Inl e"
    using assms(3) begin_connect_world(2) [OF b] by simp
  note h = handle_tor_error [where connect_with_prefs = connect_with_prefs, OF assms(2) b this]
  obtain w2 where f: "tor_failed io (Text (lit ''opening anonymised Tor stream'') # e) s1 w1 = (r, s', w2)"
      "w' = w2\<lparr>streams := drop_handle a (streams w2)\<rparr>"
    using assms(4) h by (auto split: prod.splits)
  have "reply_bytes REP_GENERAL_FAILURE = [0x05, 0x01, 0, 1, 0, 0, 0, 0, 0, 0]"
    by (simp add: reply_bytes_def socks_consts)
  with client_stream.tor_failed_sent [OF assms(1) f(1)]
  have "\<exists>q. prefix q [0x05, 0x01, 0, 1, 0, 0, 0, 0, 0, 0] \<and> sent s' = sent s1 @ q" by simp
  moreover have "handle io fresh connect_with_prefs copy' peer s w = (r, s', w')" for copy'
    by (simp add: h f)
  ultimately show ?thesis
    using tor_failed_world [OF f(1)] begin_connect_world(5) [OF b] f(2) by (auto simp: metrics_defs)
qed

definition example_world :: "isolation_policy \<Rightarrow> (nat, unit) world" where
  "example_world p = \<lparr>totals = new_metrics, streams = new_registry, tor = example_manager p, clock = 0\<rparr>"

definition example_copy_fun :: "unit \<Rightarrow> conn \<Rightarrow> copy_op list \<times> (io_error + unit)" where
  "example_copy_fun up c = (example_copy, Inr ())"

theorem fail_closed_witness:
  "\<exists>r s' w'. handle conn_ops id (\<lambda>c addr t. Inl [Foreign (lit ''no exit'')]) example_copy_fun default_peer
       (example_conn [example_v4_request]) (example_world PerQuery) = (r, s', w')
     \<and> (\<exists>e. r = Inl e) \<and> connects_failed (totals w') = 1"
proof -
  let ?tor = "\<lambda>c addr t. Inl [Foreign (lit ''no exit'')] :: error + unit"
  obtain r s' w' where h: "handle conn_ops id ?tor example_copy_fun default_peer
       (example_conn [example_v4_request]) (example_world PerQuery) = (r, s', w')"
    by (metis prod_cases3)
  obtain s1 where "handshake conn_ops (example_conn [example_v4_request])
      = (Inr (ipv4_display (Ipv4 192 0 2 1), 80, None), s1)"
    using example_v4_run by blast
  from fail_closed [OF conn.client_stream_axioms this _ h] h show ?thesis
    by (auto simp: example_world_def new_metrics_def)
qed

text \<open>
  C19. What a connection amounts to, for arbitrary client bytes, arti answers and copies: the
  client sees a refusal and nothing is counted; or, after the method selection, a prefix of
  the general-failure reply, counted as failed; or an undelivered success reply, counted in
  the total only; or the success reply and then what the copy wrote, counted as ok, with the
  very numbers of bytes that the calls of the copy read from and wrote to the bare stream.
\<close>

theorem connection_outcome:
  assumes "client_stream io unread sent" and "\<And>up c. list_all copy_op_ok (fst (copy up c))"
    and "handle io fresh connect_with_prefs copy peer s w = (r, s', w')"
  shows "\<exists>out. sent s' = sent s @ out \<and>
    ((\<exists>e. r = Inl e) \<and> w' = w \<and> refusal out
     \<or> (\<exists>m \<in> accept_scripts. \<exists>q e. r = Inl e \<and> out = m @ q \<and> prefix q (reply_bytes REP_GENERAL_FAILURE)
         \<and> totals w' = count_failed (count_connect (totals w)))
     \<or> (\<exists>m \<in> accept_scripts. \<exists>q e. r = Inl e \<and> out = m @ q \<and> prefix q (reply_bytes REP_SUCCESS)
         \<and> totals w' = count_connect (totals w))
     \<or> (\<exists>m \<in> accept_scripts. \<exists>s2 up ops res ups downs. send_reply io REP_SUCCESS (snd (handshake io s)) = (Inr (), s2)
         \<and> copy up s2 = (ops, res) \<and> plain_run io ops s2 = ((ups, downs), s') \<and> r = splice_result res
         \<and> out = m @ reply_bytes REP_SUCCESS @ downs
         \<and> totals w' = count_client (of_nat (length downs)) (count_upstream (of_nat (length ups))
              (count_ok (count_connect (totals w))))))"
  by (rule client_stream.handle_outcome [OF assms(1,3,2)])

text \<open>An example: a client whose first bytes after the request are already there.\<close>

lemma handle_tor_ok:
  assumes "handshake io s = (Inr (host, port, user), s1)"
    and "connect_with_prefs (client (tor w)) (host, port) (fst (isolation_token fresh user (tor w))) = Inr up"
    and "send_reply io REP_SUCCESS s1 = (Inr (), s2)" and "copy up s2 = (ops, res)"
  shows "\<exists>w'. handle io fresh connect_with_prefs copy peer s w = (splice_result res, snd (plain_run io ops s2), w')"
proof -
  obtain a t w1 where b: "begin_connect fresh peer host port user w = ((a, t), w1)"
    by (metis prod_cases3 surj_pair)
  have tor1: "client (tor w1) = client (tor w)" "t = fst (isolation_token fresh user (tor w))"
    using begin_connect_world(2,3) [OF b] by simp_all
  obtain bytes s3 w3 where m: "metered_run io a ops (s2, w1\<lparr>totals := count_ok (totals w1)\<rparr>) = (bytes, s3, w3)"
    by (metis prod_cases3)
  have "plain_run io ops s2 = (bytes, s3)" by (rule metered_run_plain [OF m])
  with assms b tor1 m show ?thesis
    by (simp add: handle_def proxy_def connect_result_def tor_connected_def)
qed

definition example_negotiated :: conn where
  "example_negotiated = (example_conn [[], [1, 2, 3]])\<lparr>tx := [5, 0], tx_room := 98\<rparr>"

lemma example_spliced_run:
  "handshake conn_ops (example_conn [example_v4_request, [1, 2, 3]])
     = (Inr (ipv4_display (Ipv4 192 0 2 1), 80, None), example_negotiated)"
  by (simp add: handshake_def negotiate_method_def read_request_def read_target_def and_then_def with_context_def lift_io_def
      ret_run catch_def conn_defs example_conn_def example_v4_request_def example_negotiated_def socks_consts take_exact_pos
      be16_def del: ipv4_display.simps)

theorem connection_outcome_witness:
  "\<exists>s' w'. handle conn_ops id (\<lambda>c addr t. Inr ()) example_copy_fun default_peer
       (example_conn [example_v4_request, [1, 2, 3]]) (example_world PerQuery) = (Inr (), s', w')
     \<and> tx s' = [5, 0, 5, 0, 0, 1, 0, 0, 0, 0, 0, 0, 7, 8] \<and> connects_ok (totals w') = 1
     \<and> bytes_to_upstream (totals w') = 3 \<and> bytes_to_client (totals w') = 2"
proof -
  let ?c = "example_conn [example_v4_request, [1, 2, 3]]" and ?tor = "\<lambda>c addr t. Inr () :: error + unit"
  let ?s2 = "example_negotiated\<lparr>tx := tx example_negotiated @ reply_bytes REP_SUCCESS, tx_room := 88\<rparr>"
  have reply: "send_reply conn_ops REP_SUCCESS example_negotiated = (Inr (), ?s2)"
    by (simp add: send_reply_def lift_io_def conn_defs reply_bytes_def example_negotiated_def)
  have copy: "example_copy_fun () ?s2 = (example_copy, Inr ())" by (simp add: example_copy_fun_def)
  obtain w' where h: "handle conn_ops id ?tor example_copy_fun default_peer ?c (example_world PerQuery)
      = (splice_result (Inr ()), snd (plain_run conn_ops example_copy ?s2), w')"
    using handle_tor_ok [where connect_with_prefs = ?tor and copy = example_copy_fun and fresh = id
        and w = "example_world PerQuery" and peer = default_peer, OF example_spliced_run refl reply copy] by blast
  have "\<And>up c. list_all copy_op_ok (fst (example_copy_fun up c))"
    by (simp add: example_copy_fun_def example_copy_def)
  note out = connection_outcome [OF conn.client_stream_axioms this h]
  obtain s3 where run: "plain_run conn_ops example_copy ?s2 = (([1, 2, 3], [7, 8]), s3)"
      "tx s3 = [5, 0, 5, 0, 0, 1, 0, 0, 0, 0, 0, 0, 7, 8]"
    by (simp add: example_copy_def example_negotiated_def example_conn_def conn_defs reply_bytes_def socks_consts)
  from out have "totals w' = count_client 2 (count_upstream 3 (count_ok (count_connect new_metrics)))"
    by (auto simp: splice_result_def example_spliced_run reply run example_copy_fun_def example_world_def)
  with h run show ?thesis by (auto simp: splice_result_def metrics_defs new_metrics_def)
qed

text \<open>
  Cleaning up: whatever the client, arti and the copy do, and however the connection
  ends, the set of live rows is the one before it, the registry and the isolation map keep
  their invariants and the policy is unchanged.
\<close>

theorem connection_cleans_up:
  assumes "registry_wf (streams w)" and "length (heap (streams w)) < 2 ^ 64"
    and "inj fresh" and "manager_wf fresh (tor w)"
    and "handle io fresh connect_with_prefs copy peer s w = (r, s', w')"
  shows "live (streams w') = live (streams w) \<and> registry_len (streams w') = registry_len (streams w)
    \<and> registry_wf (streams w') \<and> manager_wf fresh (tor w') \<and> policy (tor w') = policy (tor w)"
  using handle_registry [OF assms] assms(1) by (simp add: registry_len_live)

lemma example_world_wf:
  "registry_wf (streams (example_world p))" "length (heap (streams (example_world p))) < 2 ^ 64"
  "manager_wf id (tor (example_world p))"
  by (simp_all add: example_world_def registry_wf_new example_manager_wf) (simp add: new_registry_def)

theorem connection_cleans_up_witness:
  "registry_len (streams (snd (snd (handle conn_ops id (\<lambda>c addr t. Inr ()) example_copy_fun default_peer
     (example_conn [example_v4_request, [1, 2, 3]]) (example_world PerUpstream))))) = 0"
proof -
  obtain r s' w' where h: "handle conn_ops id (\<lambda>c addr t. Inr ()) example_copy_fun default_peer
     (example_conn [example_v4_request, [1, 2, 3]]) (example_world PerUpstream) = (r, s', w')"
    by (metis prod_cases3)
  have "registry_len (streams w') = registry_len (streams (example_world PerUpstream))"
    using connection_cleans_up [OF example_world_wf(1,2) inj_on_id example_world_wf(3) h] by blast
  also have "\<dots> = 0"
    by (simp add: registry_len_live example_world_wf) (simp add: example_world_def)
  finally show ?thesis by (simp add: h)
qed

section \<open>The successful course\<close>

context roomy_stream begin

lemma send_reply_roomy:
  "10 \<le> room s \<Longrightarrow> \<exists>s'. send_reply io rep s = (Inr (), s') \<and> sent s' = sent s @ reply_bytes rep \<and> unread s' = unread s"
  using write_all_room [of "reply_bytes rep" s] write_all_ok [of "reply_bytes rep" s "()"]
  by (fastforce simp: reply_bytes_def send_reply_def lift_io_eq_Inr)

lemma handshake_accepted:
  assumes "length methods < 256" and "auth_ok methods au" and "dest_ok d" and "4 \<le> room s"
    and "unread s = greeting_bytes methods @ auth_bytes au @ request_bytes CMD_CONNECT rsv d port @ rest"
  obtains s1 where "handshake io s = (Inr (dest_host d, port, auth_user au), s1)" and "unread s1 = rest"
    and "sent s1 = sent s @ auth_reply au" and "room s - 4 \<le> room s1"
proof -
  have "runs (handshake io) ((greeting_bytes methods @ auth_bytes au) @ request_bytes CMD_CONNECT rsv d port)
      (auth_reply au @ []) (Inr (dest_host d, port, auth_user au))"
    using runs_handshake [OF assms(1,2) runs_request [OF assms(3), of rsv port]] by simp
  moreover have "unread s = ((greeting_bytes methods @ auth_bytes au) @ request_bytes CMD_CONNECT rsv d port) @ rest"
    using assms(5) by simp
  moreover have "length (auth_reply au @ []) \<le> room s" using length_auth_reply [of au] assms(4) by simp
  ultimately obtain s1 where "handshake io s = (Inr (dest_host d, port, auth_user au), s1)" "unread s1 = rest"
      "sent s1 = sent s @ auth_reply au @ []" "room s1 = room s - length (auth_reply au @ [])"
    unfolding runs_def by blast
  with that [of s1] length_auth_reply [of au] show ?thesis by simp
qed

end

text \<open>
  C18. The successful course: a well-formed request for which arti opens a stream is answered
  with the success reply, arti is asked for the host and port of the request (never for a
  resolved name) with the token of its username, the bytes the client sent early are left to
  the copy, and the connection ends as the copy ends on the bare stream.
\<close>

theorem connect_success:
  assumes "roomy_stream io unread sent room" and "length methods < 256" and "auth_ok methods au"
    and "dest_ok d" and "14 \<le> room s"
    and "unread s = greeting_bytes methods @ auth_bytes au @ request_bytes CMD_CONNECT rsv d port @ rest"
    and "connect_with_prefs (client (tor w)) (dest_host d, port)
           (fst (isolation_token fresh (auth_user au) (tor w))) = Inr up"
  shows "\<exists>s2. sent s2 = sent s @ auth_reply au @ [0x05, 0x00, 0, 1, 0, 0, 0, 0, 0, 0] \<and> unread s2 = rest
    \<and> (\<forall>ops res. copy up s2 = (ops, res) \<longrightarrow>
         (\<exists>w'. handle io fresh connect_with_prefs copy peer s w = (splice_result res, snd (plain_run io ops s2), w')))"
proof -
  note rs = assms(1)
  have "4 \<le> room s" using assms(5) by simp
  then obtain s1 where s1: "handshake io s = (Inr (dest_host d, port, auth_user au), s1)" "unread s1 = rest"
      "sent s1 = sent s @ auth_reply au" "room s - 4 \<le> room s1"
    by (rule roomy_stream.handshake_accepted [OF rs assms(2-4) _ assms(6)])
  have "10 \<le> room s1" using assms(5) s1(4) by simp
  then obtain s2 where s2: "send_reply io REP_SUCCESS s1 = (Inr (), s2)"
      "sent s2 = sent s1 @ reply_bytes REP_SUCCESS" "unread s2 = unread s1"
    using roomy_stream.send_reply_roomy [OF rs] by blast
  have "sent s2 = sent s @ auth_reply au @ [0x05, 0x00, 0, 1, 0, 0, 0, 0, 0, 0]" "unread s2 = rest"
    using s1 s2 by (simp_all add: reply_bytes_def socks_consts)
  moreover have "\<exists>w'. handle io fresh connect_with_prefs copy peer s w = (splice_result res, snd (plain_run io ops s2), w')"
    if "copy up s2 = (ops, res)" for ops res
    by (rule handle_tor_ok [where connect_with_prefs = connect_with_prefs and copy = copy, OF s1(1) assms(7) s2(1) that])
  ultimately show ?thesis by blast
qed

theorem connect_success_witness:
  "\<exists>s' w'. handle conn_ops id (\<lambda>c addr t. Inr ()) (\<lambda>up c. ([], Inr ())) default_peer
     (example_conn [example_v4_request @ [1, 2], [3]]) (example_world PerUpstream) = (Inr (), s', w')
     \<and> tx s' = [5, 0, 5, 0, 0, 1, 0, 0, 0, 0, 0, 0] \<and> conn_unread s' = [1, 2, 3]"
proof -
  let ?c = "example_conn [example_v4_request @ [1, 2], [3]]"
  let ?tor = "\<lambda>c addr t. Inr () :: error + unit"
  have unread: "conn_unread ?c = greeting_bytes [0] @ auth_bytes Anonymous @
      request_bytes CMD_CONNECT 0 (DestV4 (Ipv4 192 0 2 1)) 80 @ [1, 2, 3]"
    by (simp add: example_conn_def conn_unread_def example_v4_bytes)
  have "\<exists>s2. tx s2 = tx ?c @ auth_reply Anonymous @ [0x05, 0x00, 0, 1, 0, 0, 0, 0, 0, 0] \<and> conn_unread s2 = [1, 2, 3]
    \<and> (\<forall>ops res. ([], Inr ()) = (ops, res) \<longrightarrow> (\<exists>w'. handle conn_ops id ?tor (\<lambda>up c. ([], Inr ())) default_peer ?c
         (example_world PerUpstream) = (splice_result res, snd (plain_run conn_ops ops s2), w')))"
    by (rule connect_success [OF conn.roomy_stream_axioms _ _ _ _ unread])
      (simp_all add: example_conn_def socks_consts)
  then show ?thesis by (auto simp: splice_result_def example_conn_def)
qed

end
