(* ===== verification/Socks_Bounds.thy ===== *)
theory Socks_Bounds
  imports Socks_Connection
begin

text \<open>
  What the negotiation may cost: an instrumented stream adds up the bytes asked from and
  offered to the client. Nothing is assumed of the stream, so the bounds hold for every
  client, however slow, silent or hostile.
\<close>

section \<open>The instrumented stream\<close>

definition counting :: "'s stream_ops \<Rightarrow> ('s \<times> nat \<times> nat) stream_ops" where
  "counting io =
     \<lparr>read_exact = (\<lambda>n (s, r, w). case read_exact io n s of (x, t) \<Rightarrow> (x, t, r + n, w)),
      write_all = (\<lambda>b (s, r, w). case write_all io b s of (x, t) \<Rightarrow> (x, t, r, w + length b)),
      poll_read = (\<lambda>b (s, r, w). case poll_read io b s of (x, b', t) \<Rightarrow> (x, b', t, r, w)),
      poll_write = (\<lambda>b (s, r, w). case poll_write io b s of (x, t) \<Rightarrow> (x, t, r, w)),
      poll_flush = (\<lambda>(s, r, w). case poll_flush io s of (x, t) \<Rightarrow> (x, t, r, w)),
      poll_shutdown = (\<lambda>(s, r, w). case poll_shutdown io s of (x, t) \<Rightarrow> (x, t, r, w))\<rparr>"

text \<open>
  \<open>costs q p R W\<close>: the instrumented program \<open>q\<close> does what \<open>p\<close> does, asks for at most \<open>R\<close> bytes
  and offers at most \<open>W\<close>.
\<close>

definition costs :: "('s \<times> nat \<times> nat, 'a) prog \<Rightarrow> ('s, 'a) prog \<Rightarrow> nat \<Rightarrow> nat \<Rightarrow> bool" where
  "costs q p R W \<longleftrightarrow> (\<forall>s r w. \<exists>r' w'. q (s, r, w) = (fst (p s), snd (p s), r', w') \<and> r' \<le> r + R \<and> w' \<le> w + W)"

lemma costsI:
  "(\<And>s r w. \<exists>r' w'. q (s, r, w) = (fst (p s), snd (p s), r', w') \<and> r' \<le> r + R \<and> w' \<le> w + W) \<Longrightarrow> costs q p R W"
  unfolding costs_def by blast

lemma costsD:
  assumes "costs q p R W" and "p s = (x, t)"
  obtains r' w' where "q (s, r, w) = (x, t, r', w')" and "r' \<le> r + R" and "w' \<le> w + W"
  using assms unfolding costs_def by (metis fst_conv snd_conv)

lemma costs_ret: "costs (ret a) (ret a) R W"
  by (rule costsI) (simp add: ret_def)

lemma costs_throw: "costs (throw e) (throw e) R W"
  by (rule costsI) (simp add: throw_def)

lemma costs_bail: "costs (bail m) (bail m) R W"
  by (simp add: bail_def costs_throw)

lemma costs_read: "n \<le> R \<Longrightarrow> costs (lift_io (read_exact (counting io) n)) (lift_io (read_exact io n)) R W"
  by (rule costsI) (auto simp: counting_def lift_io_def split: prod.splits sum.splits)

lemma costs_write: "length b \<le> W \<Longrightarrow> costs (lift_io (write_all (counting io) b)) (lift_io (write_all io b)) R W"
  by (rule costsI) (auto simp: counting_def lift_io_def split: prod.splits sum.splits)

lemma costs_context:
  assumes "costs q p R W"
  shows "costs (with_context m q) (with_context m p) R W"
proof (rule costsI)
  fix s r w
  obtain x t where p: "p s = (x, t)" by fastforce
  obtain r' w' where "q (s, r, w) = (x, t, r', w')" "r' \<le> r + R" "w' \<le> w + W"
    by (rule costsD [OF assms p])
  with p show "\<exists>r' w'. with_context m q (s, r, w)
      = (fst (with_context m p s), snd (with_context m p s), r', w') \<and> r' \<le> r + R \<and> w' \<le> w + W"
    by (auto simp: with_context_def split: sum.splits)
qed

lemma costs_seq:
  assumes "costs q p R W" and "\<And>a. costs (l a) (k a) (R' - R) (W' - W)" and "R \<le> R'" and "W \<le> W'"
  shows "costs (and_then q l) (and_then p k) R' W'"
proof (rule costsI)
  fix s r w
  obtain x t where p: "p s = (x, t)" by fastforce
  obtain r1 w1 where q: "q (s, r, w) = (x, t, r1, w1)" "r1 \<le> r + R" "w1 \<le> w + W"
    by (rule costsD [OF assms(1) p])
  show "\<exists>r' w'. and_then q l (s, r, w)
      = (fst (and_then p k s), snd (and_then p k s), r', w') \<and> r' \<le> r + R' \<and> w' \<le> w + W'"
  proof (cases x)
    case (Inl e)
    with p q assms(3,4) show ?thesis by (auto simp: and_then_def)
  next
    case (Inr a)
    obtain y u where k: "k a t = (y, u)" by fastforce
    obtain r2 w2 where "l a (t, r1, w1) = (y, u, r2, w2)" "r2 \<le> r1 + (R' - R)" "w2 \<le> w1 + (W' - W)"
      by (rule costsD [OF assms(2) k])
    with p q k Inr assms(3,4) show ?thesis by (auto simp: and_then_def)
  qed
qed

lemma costs_catch:
  assumes "costs q p R W" and "\<And>e. costs (g e) (h e) (R' - R) (W' - W)" and "R \<le> R'" and "W \<le> W'"
  shows "costs (catch q g) (catch p h) R' W'"
proof (rule costsI)
  fix s r w
  obtain x t where p: "p s = (x, t)" by fastforce
  obtain r1 w1 where q: "q (s, r, w) = (x, t, r1, w1)" "r1 \<le> r + R" "w1 \<le> w + W"
    by (rule costsD [OF assms(1) p])
  show "\<exists>r' w'. catch q g (s, r, w)
      = (fst (catch p h s), snd (catch p h s), r', w') \<and> r' \<le> r + R' \<and> w' \<le> w + W'"
  proof (cases x)
    case (Inr a)
    with p q assms(3,4) show ?thesis by (auto simp: catch_def)
  next
    case (Inl e)
    obtain y u where h: "h e t = (y, u)" by fastforce
    obtain r2 w2 where "g e (t, r1, w1) = (y, u, r2, w2)" "r2 \<le> r1 + (R' - R)" "w2 \<le> w1 + (W' - W)"
      by (rule costsD [OF assms(2) h])
    with p q h Inl assms(3,4) show ?thesis by (auto simp: catch_def)
  qed
qed

lemma costs_if: "(b \<Longrightarrow> costs q p R W) \<Longrightarrow> (\<not> b \<Longrightarrow> costs q' p' R W) \<Longrightarrow>
    costs (if b then q else q') (if b then p else p') R W"
  by simp

lemma costs_option: "(\<And>a. costs (f a) (f' a) R W) \<Longrightarrow> costs g g' R W \<Longrightarrow>
    costs (case x of Some a \<Rightarrow> f a | None \<Rightarrow> g) (case x of Some a \<Rightarrow> f' a | None \<Rightarrow> g') R W"
  by (cases x) simp_all

text \<open>Reads and writes at the head of a program.\<close>

lemma costs_read_then:
  "(\<And>a. costs (l a) (k a) (R - n) W) \<Longrightarrow> n \<le> R \<Longrightarrow>
   costs (and_then (lift_io (read_exact (counting io) n)) l) (and_then (lift_io (read_exact io n)) k) R W"
  by (rule costs_seq [of _ _ n 0]) (simp_all add: costs_read)

lemma costs_read_context_then:
  "(\<And>a. costs (l a) (k a) (R - n) W) \<Longrightarrow> n \<le> R \<Longrightarrow>
   costs (and_then (with_context m (lift_io (read_exact (counting io) n))) l)
     (and_then (with_context m (lift_io (read_exact io n))) k) R W"
  by (rule costs_seq [of _ _ n 0]) (simp_all add: costs_read costs_context)

lemma costs_write_then:
  "(\<And>a. costs (l a) (k a) R (W - length b)) \<Longrightarrow> length b \<le> W \<Longrightarrow>
   costs (and_then (lift_io (write_all (counting io) b)) l) (and_then (lift_io (write_all io b)) k) R W"
  by (rule costs_seq [of _ _ 0 "length b"]) (simp_all add: costs_write)

text \<open>A read whose length is the value of a byte asks for at most 255.\<close>

lemma costs_byte_read_then:
  assumes "\<And>a. costs (l a) (k a) (R - 255) W" and "255 \<le> R"
  shows "costs (and_then (lift_io (read_exact (counting io) (unat (b :: u8)))) l)
     (and_then (lift_io (read_exact io (unat b))) k) R W"
proof -
  have "unat b \<le> 255" using unat_u8_less [of b] by simp
  then show ?thesis using assms by (intro costs_seq [of _ _ 255 0]) (simp_all add: costs_read)
qed

lemma costs_byte_read_context_then:
  assumes "\<And>a. costs (l a) (k a) (R - 255) W" and "255 \<le> R"
  shows "costs (and_then (with_context m (lift_io (read_exact (counting io) (unat (b :: u8))))) l)
     (and_then (with_context m (lift_io (read_exact io (unat b)))) k) R W"
proof -
  have "unat b \<le> 255" using unat_u8_less [of b] by simp
  then show ?thesis using assms by (intro costs_seq [of _ _ 255 0]) (simp_all add: costs_read costs_context)
qed

lemmas costs_rules = costs_ret costs_throw costs_bail costs_if costs_option
  costs_byte_read_then costs_byte_read_context_then costs_read_then costs_read_context_then costs_write_then

section \<open>The negotiation\<close>

lemma costs_userpass: "costs (read_userpass (counting io)) (read_userpass io) 513 0"
  unfolding read_userpass_def by (intro costs_rules) simp_all

lemma costs_method: "costs (negotiate_method (counting io)) (negotiate_method io) 770 4"
  unfolding negotiate_method_def
  by (intro costs_rules costs_seq [OF costs_userpass]) simp_all

lemma costs_target: "costs (read_target (counting io) atyp) (read_target io atyp) 258 0"
  unfolding read_target_def
  by (rule costs_seq [of _ _ 256 0]) ((intro costs_rules; simp add: split_def; intro costs_rules; simp)+, simp_all)

lemma costs_request: "costs (read_request (counting io)) (read_request io) 262 10"
  unfolding read_request_def send_reply_def
  by (intro costs_rules costs_catch [OF costs_target]) (simp_all add: reply_bytes_def)

text \<open>
  C12. The negotiation is bounded for every client: it behaves as on the plain stream, asks for at
  most 1032 bytes in all and offers at most 14 bytes, whatever lengths the client announces.
\<close>

theorem handshake_bounded:
  "\<exists>r w. handshake (counting io) (s, 0, 0) = (fst (handshake io s), snd (handshake io s), r, w)
    \<and> r \<le> 1032 \<and> w \<le> 14"
proof -
  have "costs (handshake (counting io)) (handshake io) 1032 14"
    unfolding handshake_def
    by (rule costs_seq [OF costs_method]) (simp_all, rule costs_seq [OF costs_request], auto intro: costs_ret)
  then show ?thesis unfolding costs_def by (metis add_0)
qed

end
