(* ===== verification/Socks_Awaits.thy ===== *)
theory Socks_Awaits
  imports Socks_Connection
begin

text \<open>
  The negotiation of \<open>socks/server.rs\<close> cut at its awaits: a tree of reads and writes, each of
  which the runtime may leave pending. Run to its end on a stream it is \<open>handshake\<close>; and
  however the client answers, it is over after a fixed number of awaits.
\<close>

section \<open>Suspended programs\<close>

text \<open>
  A program that talks to a client is over, or it awaits a read or a write and goes on with what
  that returns.
\<close>

datatype 'a talk =
    Outcome "error + 'a"
  | AwaitRead nat "io_error + u8 list \<Rightarrow> 'a talk"
  | AwaitWrite "u8 list" "io_error + unit \<Rightarrow> 'a talk"

primrec talk_run :: "'s stream_ops \<Rightarrow> 'a talk \<Rightarrow> ('s, 'a) prog" where
  "talk_run io (Outcome r) = (\<lambda>s. (r, s))"
| "talk_run io (AwaitRead n k) = (\<lambda>s. case read_exact io n s of (x, t) \<Rightarrow> talk_run io (k x) t)"
| "talk_run io (AwaitWrite b k) = (\<lambda>s. case write_all io b s of (x, t) \<Rightarrow> talk_run io (k x) t)"

text \<open>The question mark, contexts and handlers, as for programs that do not suspend.\<close>

primrec talk_then :: "'a talk \<Rightarrow> ('a \<Rightarrow> 'b talk) \<Rightarrow> 'b talk" where
  "talk_then (Outcome r) f = (case r of Inl e \<Rightarrow> Outcome (Inl e) | Inr a \<Rightarrow> f a)"
| "talk_then (AwaitRead n k) f = AwaitRead n (\<lambda>x. talk_then (k x) f)"
| "talk_then (AwaitWrite b k) f = AwaitWrite b (\<lambda>x. talk_then (k x) f)"

primrec talk_catch :: "'a talk \<Rightarrow> (error \<Rightarrow> 'a talk) \<Rightarrow> 'a talk" where
  "talk_catch (Outcome r) h = (case r of Inl e \<Rightarrow> h e | Inr a \<Rightarrow> Outcome (Inr a))"
| "talk_catch (AwaitRead n k) h = AwaitRead n (\<lambda>x. talk_catch (k x) h)"
| "talk_catch (AwaitWrite b k) h = AwaitWrite b (\<lambda>x. talk_catch (k x) h)"

definition talk_ret :: "'a \<Rightarrow> 'a talk" where
  "talk_ret a = Outcome (Inr a)"

definition talk_throw :: "error \<Rightarrow> 'a talk" where
  "talk_throw e = Outcome (Inl e)"

definition talk_bail :: "rstr \<Rightarrow> 'a talk" where
  "talk_bail m = talk_throw [Text m]"

definition talk_context :: "rstr \<Rightarrow> 'a talk \<Rightarrow> 'a talk" where
  "talk_context m p = talk_catch p (\<lambda>e. talk_throw (Text m # e))"

definition io_outcome :: "io_error + 'a \<Rightarrow> 'a talk" where
  "io_outcome x = Outcome (map_sum (\<lambda>e. [IoCause e]) id x)"

definition talk_read :: "nat \<Rightarrow> u8 list talk" where
  "talk_read n = AwaitRead n io_outcome"

definition talk_write :: "u8 list \<Rightarrow> unit talk" where
  "talk_write b = AwaitWrite b io_outcome"

named_theorems talk_runs \<open>running suspended programs to their end\<close>

lemma run_then [talk_runs]: "talk_run io (talk_then p f) = and_then (talk_run io p) (\<lambda>a. talk_run io (f a))"
  by (induction p) (auto simp: fun_eq_iff and_then_def split: sum.split prod.split)

lemma run_catch [talk_runs]: "talk_run io (talk_catch p h) = catch (talk_run io p) (\<lambda>e. talk_run io (h e))"
  by (induction p) (auto simp: fun_eq_iff catch_def split: sum.split prod.split)

lemma run_ret [talk_runs]: "talk_run io (talk_ret a) = ret a"
  by (simp add: fun_eq_iff talk_ret_def ret_def)

lemma run_throw [talk_runs]: "talk_run io (talk_throw e) = throw e"
  by (simp add: fun_eq_iff talk_throw_def throw_def)

lemma run_bail [talk_runs]: "talk_run io (talk_bail m) = bail m"
  by (simp add: talk_bail_def run_throw bail_def)

lemma run_context [talk_runs]: "talk_run io (talk_context m p) = with_context m (talk_run io p)"
  by (auto simp: talk_context_def run_catch run_throw fun_eq_iff catch_def with_context_def throw_run split: prod.split sum.split)

lemma run_read [talk_runs]: "talk_run io (talk_read n) = lift_io (read_exact io n)"
  by (auto simp: fun_eq_iff talk_read_def io_outcome_def lift_io_def split: prod.split sum.split)

lemma run_write [talk_runs]: "talk_run io (talk_write b) = lift_io (write_all io b)"
  by (auto simp: fun_eq_iff talk_write_def io_outcome_def lift_io_def split: prod.split sum.split)

lemma run_if [talk_runs]: "talk_run io (if c then p else q) = (if c then talk_run io p else talk_run io q)"
  by simp

lemma run_option [talk_runs]:
  "talk_run io (case x of None \<Rightarrow> p | Some a \<Rightarrow> f a) = (case x of None \<Rightarrow> talk_run io p | Some a \<Rightarrow> talk_run io (f a))"
  by (cases x) simp_all

lemma run_pair [talk_runs]: "talk_run io (case x of (a, b) \<Rightarrow> f a b) = (case x of (a, b) \<Rightarrow> talk_run io (f a b))"
  by (cases x) simp

section \<open>The negotiation\<close>

definition talk_userpass :: "rstr talk" where
  "talk_userpass =
     talk_then (talk_context (lit ''reading RFC1929 auth version'') (talk_read 1)) (\<lambda>ver.
     if ver ! 0 \<noteq> AUTH_USERPASS_VER
     then talk_bail (lit ''bad RFC1929 auth version '' @ dec_byte (ver ! 0))
     else
       talk_then (talk_read 1) (\<lambda>ulen.
       talk_then (talk_read (unat (ulen ! 0))) (\<lambda>uname.
       talk_then (talk_read 1) (\<lambda>plen.
       talk_then (talk_read (unat (plen ! 0))) (\<lambda>passwd.
       case from_utf8 uname of
         None \<Rightarrow> talk_throw [Text (lit ''SOCKS username is not UTF-8''), Utf8Cause]
       | Some u \<Rightarrow> talk_ret u)))))"

definition talk_target :: "u8 \<Rightarrow> (rstr \<times> u16) talk" where
  "talk_target atyp =
     talk_then
       (if atyp = ATYP_IPV4 then
          talk_then (talk_read 4) (\<lambda>a. talk_ret (ipv4_display (ipv4_of a)))
        else if atyp = ATYP_IPV6 then
          talk_then (talk_read 16) (\<lambda>a. talk_ret (ipv6_display (Ipv6 a)))
        else if atyp = ATYP_DOMAIN then
          talk_then (talk_read 1) (\<lambda>len.
          talk_then (talk_read (unat (len ! 0))) (\<lambda>name.
          case from_utf8 name of
            None \<Rightarrow> talk_throw [Text (lit ''SOCKS domain name is not UTF-8''), Utf8Cause]
          | Some h \<Rightarrow> talk_ret h))
        else talk_bail (lit ''unsupported SOCKS address type '' @ dec_byte atyp)) (\<lambda>host.
     talk_then (talk_read 2) (\<lambda>port.
     talk_ret (host, of_nat (be16 (port ! 0) (port ! 1)))))"

definition talk_reply :: "u8 \<Rightarrow> unit talk" where
  "talk_reply rep = talk_write (reply_bytes rep)"

definition talk_method :: "rstr option talk" where
  "talk_method =
     talk_then (talk_context (lit ''reading SOCKS greeting'') (talk_read 2)) (\<lambda>greeting.
     if greeting ! 0 \<noteq> SOCKS5
     then talk_bail (lit ''not a SOCKS5 client (version '' @ dec_byte (greeting ! 0) @ lit '')'')
     else
       talk_then (talk_context (lit ''reading SOCKS auth methods'') (talk_read (unat (greeting ! 1)))) (\<lambda>methods.
       if METHOD_USERPASS \<in> set methods then
         talk_then (talk_write [SOCKS5, METHOD_USERPASS]) (\<lambda>_.
         talk_then talk_userpass (\<lambda>user.
         talk_then (talk_write [AUTH_USERPASS_VER, REP_SUCCESS]) (\<lambda>_.
         talk_ret (Some user))))
       else if METHOD_NOAUTH \<in> set methods then
         talk_then (talk_write [SOCKS5, METHOD_NOAUTH]) (\<lambda>_. talk_ret None)
       else
         talk_then (talk_write [SOCKS5, METHOD_NONE]) (\<lambda>_.
         talk_bail (lit ''client offered no acceptable SOCKS auth method''))))"

definition talk_request :: "(rstr \<times> u16) talk" where
  "talk_request =
     talk_then (talk_context (lit ''reading SOCKS request'') (talk_read 4)) (\<lambda>req.
     if req ! 0 \<noteq> SOCKS5
     then talk_bail (lit ''bad SOCKS request version '' @ dec_byte (req ! 0))
     else if req ! 1 \<noteq> CMD_CONNECT then
       talk_then (talk_reply REP_CMD_NOT_SUPPORTED) (\<lambda>_.
       talk_bail (lit ''unsupported SOCKS command '' @ dec_byte (req ! 1) @ lit '' (only CONNECT)''))
     else
       talk_catch (talk_target (req ! 3)) (\<lambda>e.
         talk_then (talk_reply REP_ATYP_NOT_SUPPORTED) (\<lambda>_. talk_throw e)))"

definition talk_handshake :: "(rstr \<times> u16 \<times> rstr option) talk" where
  "talk_handshake =
     talk_then talk_method (\<lambda>user.
     talk_then talk_request (\<lambda>(host, port).
     talk_ret (host, port, user)))"

lemma run_userpass [talk_runs]: "talk_run io talk_userpass = read_userpass io"
  by (simp add: talk_userpass_def read_userpass_def talk_runs cong: if_cong option.case_cong)

lemma run_target [talk_runs]: "talk_run io (talk_target atyp) = read_target io atyp"
  by (simp add: talk_target_def read_target_def talk_runs cong: if_cong option.case_cong)

lemma run_reply [talk_runs]: "talk_run io (talk_reply rep) = send_reply io rep"
  by (simp add: talk_reply_def send_reply_def talk_runs)

lemma run_method [talk_runs]: "talk_run io talk_method = negotiate_method io"
  by (simp add: talk_method_def negotiate_method_def talk_runs cong: if_cong)

lemma run_request [talk_runs]: "talk_run io talk_request = read_request io"
  by (simp add: talk_request_def read_request_def talk_runs cong: if_cong)

lemma run_handshake: "talk_run io talk_handshake = handshake io"
  by (simp add: talk_handshake_def handshake_def talk_runs)

section \<open>How many awaits\<close>

text \<open>
  However its awaits are answered, a program is over before it has used up its awaits, and its
  outcome and those left satisfy a condition.
\<close>

primrec within :: "'a talk \<Rightarrow> nat \<Rightarrow> (error + 'a \<Rightarrow> nat \<Rightarrow> bool) \<Rightarrow> bool" where
  "within (Outcome r) n Q \<longleftrightarrow> Q r n"
| "within (AwaitRead m k) n Q \<longleftrightarrow> 0 < n \<and> (\<forall>x. within (k x) (n - 1) Q)"
| "within (AwaitWrite b k) n Q \<longleftrightarrow> 0 < n \<and> (\<forall>x. within (k x) (n - 1) Q)"

named_theorems within_rules \<open>awaits of suspended programs\<close>

lemma within_then [within_rules]:
  "within (talk_then p f) n Q \<longleftrightarrow> within p n (\<lambda>r m. case r of Inl e \<Rightarrow> Q (Inl e) m | Inr a \<Rightarrow> within (f a) m Q)"
  by (induction p arbitrary: n) (auto split: sum.split)

lemma within_catch [within_rules]:
  "within (talk_catch p h) n Q \<longleftrightarrow> within p n (\<lambda>r m. case r of Inl e \<Rightarrow> within (h e) m Q | Inr a \<Rightarrow> Q (Inr a) m)"
  by (induction p arbitrary: n) (auto split: sum.split)

lemma within_basic [within_rules]:
  "within (talk_ret a) n Q \<longleftrightarrow> Q (Inr a) n" "within (talk_throw e) n Q \<longleftrightarrow> Q (Inl e) n"
  "within (talk_bail m) n Q \<longleftrightarrow> Q (Inl [Text m]) n"
  "within (talk_context m p) n Q \<longleftrightarrow> within p n (\<lambda>r. Q (map_sum ((#) (Text m)) id r))"
  by (simp_all add: talk_ret_def talk_throw_def talk_bail_def talk_context_def within_catch)
    (rule arg_cong [of _ _ "within p n"], auto simp: fun_eq_iff split: sum.split)

lemma within_read [within_rules]:
  "within (talk_read m) n Q \<longleftrightarrow> 0 < n \<and> (\<forall>e. Q (Inl [IoCause e]) (n - 1)) \<and> (\<forall>b. Q (Inr b) (n - 1))"
  by (auto simp: talk_read_def io_outcome_def split_sum_all)

lemma within_write [within_rules]:
  "within (talk_write b) n Q \<longleftrightarrow> 0 < n \<and> (\<forall>e. Q (Inl [IoCause e]) (n - 1)) \<and> Q (Inr ()) (n - 1)"
  by (auto simp: talk_write_def io_outcome_def split_sum_all)

lemma within_split [within_rules]:
  "within (if c then p else q) n Q \<longleftrightarrow> (c \<longrightarrow> within p n Q) \<and> (\<not> c \<longrightarrow> within q n Q)"
  "within (case x of None \<Rightarrow> p | Some a \<Rightarrow> f a) n Q \<longleftrightarrow> (x = None \<longrightarrow> within p n Q) \<and> (\<forall>a. x = Some a \<longrightarrow> within (f a) n Q)"
  "within (case y of (a, b) \<Rightarrow> g a b) n Q \<longleftrightarrow> (\<forall>a b. y = (a, b) \<longrightarrow> within (g a b) n Q)"
  by (simp_all split: option.split prod.split)

text \<open>
  A negotiation that succeeds leaves three of sixteen awaits to the rest of a connection, one that
  fails takes no more than these.
\<close>

lemma within_handshake:
  "within talk_handshake 16 (\<lambda>r m. case r of Inl e \<Rightarrow> True | Inr x \<Rightarrow> 3 \<le> m)"
  by (simp add: talk_handshake_def talk_method_def talk_userpass_def talk_request_def talk_target_def talk_reply_def within_rules)

end
