(* ===== verification/Proxy_System.thy ===== *)
theory Proxy_System
  imports Socks_Connection
begin

text \<open>
  Many connections at once. The runtime is single-threaded, so a task runs undisturbed from
  one \<open>await\<close> to the next: each step below is such a segment of \<open>handle\<close>, made of the same
  definitions, and any task may take the next one. The negotiation, which touches nothing that is
  shared, is one step here; theory \<open>Proxy_Awaits\<close> cuts it at its awaits, lets each of them pend,
  and proves that this system is an abstraction of that one. \<open>answers\<close> says which answers arti
  may give to a request; it need not be deterministic.
\<close>

section \<open>Tasks\<close>

text \<open>What a connection holds from its request on: its row, its destination, user and token.\<close>

datatype 'tok ticket = Ticket (row: nat) (asked: "rstr \<times> u16") (user: "rstr option") (tok: 'tok)

datatype outcome = FailedClosed | ReplyLost | Spliced

datatype ('s, 'tok, 'up) phase =
    Negotiating 's socket_addr
  | Refused 's
  | Connecting 's "'tok ticket"
  | FailReply 's "'tok ticket" error
  | OkReply 's "'tok ticket" 'up
  | Splicing 's "'tok ticket" 'up
  | Ended 's "'tok ticket" outcome

fun ticket_of :: "('s, 'tok, 'up) phase \<Rightarrow> 'tok ticket option" where
  "ticket_of (Negotiating s peer) = None"
| "ticket_of (Refused s) = None"
| "ticket_of (Connecting s k) = Some k"
| "ticket_of (FailReply s k e) = Some k"
| "ticket_of (OkReply s k up) = Some k"
| "ticket_of (Splicing s k up) = Some k"
| "ticket_of (Ended s k oc) = Some k"

fun is_open :: "('s, 'tok, 'up) phase \<Rightarrow> bool" where
  "is_open (Connecting s k) = True"
| "is_open (FailReply s k e) = True"
| "is_open (OkReply s k up) = True"
| "is_open (Splicing s k up) = True"
| "is_open _ = False"

text \<open>The connections counted as ok, as failed, and as neither (yet).\<close>

fun is_ok :: "('s, 'tok, 'up) phase \<Rightarrow> bool" where
  "is_ok (Splicing s k up) = True"
| "is_ok (Ended s k oc) \<longleftrightarrow> oc = Spliced"
| "is_ok _ = False"

fun is_failed :: "('s, 'tok, 'up) phase \<Rightarrow> bool" where
  "is_failed (FailReply s k e) = True"
| "is_failed (Ended s k oc) \<longleftrightarrow> oc = FailedClosed"
| "is_failed _ = False"

fun is_undecided :: "('s, 'tok, 'up) phase \<Rightarrow> bool" where
  "is_undecided (Connecting s k) = True"
| "is_undecided (OkReply s k up) = True"
| "is_undecided (Ended s k oc) \<longleftrightarrow> oc = ReplyLost"
| "is_undecided _ = False"

definition is_requested :: "('s, 'tok, 'up) phase \<Rightarrow> bool" where
  "is_requested p \<longleftrightarrow> ticket_of p \<noteq> None"

lemma is_requested_split: "is_requested p \<longleftrightarrow> is_ok p \<or> is_failed p \<or> is_undecided p"
  by (cases p) (auto simp: is_requested_def intro: outcome.exhaust)

section \<open>Steps\<close>

inductive sys_step ::
  "'s stream_ops \<Rightarrow> (nat \<Rightarrow> 'tok) \<Rightarrow> ('client \<Rightarrow> rstr \<times> u16 \<Rightarrow> 'tok \<Rightarrow> error + 'up \<Rightarrow> bool) \<Rightarrow>
   ('tok, 'client) world \<times> ('s, 'tok, 'up) phase list \<Rightarrow>
   ('tok, 'client) world \<times> ('s, 'tok, 'up) phase list \<Rightarrow> bool"
  for io fresh answers where
  tick: "sys_step io fresh answers (w, ts) (w\<lparr>clock := clock w + n\<rparr>, ts)"
| accepted: "sys_step io fresh answers (w, ts) (w, ts @ [Negotiating s peer])"
| refused: "i < length ts \<Longrightarrow> ts ! i = Negotiating s peer \<Longrightarrow> handshake io s = (Inl e, s') \<Longrightarrow>
    sys_step io fresh answers (w, ts) (w, ts[i := Refused s'])"
| requested: "i < length ts \<Longrightarrow> ts ! i = Negotiating s peer \<Longrightarrow>
    handshake io s = (Inr (host, port, u), s') \<Longrightarrow>
    begin_connect fresh peer host port u w = ((a, t), w') \<Longrightarrow>
    sys_step io fresh answers (w, ts) (w', ts[i := Connecting s' (Ticket a (host, port) u t)])"
| tor_error: "i < length ts \<Longrightarrow> ts ! i = Connecting s k \<Longrightarrow>
    answers (client (tor w)) (asked k) (tok k) (Inl e) \<Longrightarrow>
    sys_step io fresh answers (w, ts) (w\<lparr>totals := count_failed (totals w)\<rparr>, ts[i := FailReply s k e])"
| fail_reply: "i < length ts \<Longrightarrow> ts ! i = FailReply s k e \<Longrightarrow>
    send_reply io REP_GENERAL_FAILURE s = (x, s') \<Longrightarrow>
    sys_step io fresh answers (w, ts)
      (w\<lparr>streams := drop_handle (row k) (streams w)\<rparr>, ts[i := Ended s' k FailedClosed])"
| tor_ok: "i < length ts \<Longrightarrow> ts ! i = Connecting s k \<Longrightarrow>
    answers (client (tor w)) (asked k) (tok k) (Inr up) \<Longrightarrow>
    sys_step io fresh answers (w, ts) (w, ts[i := OkReply s k up])"
| ok_reply_lost: "i < length ts \<Longrightarrow> ts ! i = OkReply s k up \<Longrightarrow>
    send_reply io REP_SUCCESS s = (Inl e, s') \<Longrightarrow>
    sys_step io fresh answers (w, ts)
      (w\<lparr>streams := drop_handle (row k) (streams w)\<rparr>, ts[i := Ended s' k ReplyLost])"
| ok_reply: "i < length ts \<Longrightarrow> ts ! i = OkReply s k up \<Longrightarrow>
    send_reply io REP_SUCCESS s = (Inr (), s') \<Longrightarrow>
    sys_step io fresh answers (w, ts) (w\<lparr>totals := count_ok (totals w)\<rparr>, ts[i := Splicing s' k up])"
| copied: "i < length ts \<Longrightarrow> ts ! i = Splicing s k up \<Longrightarrow>
    metered_step io (row k) x (s, w) = (bytes, s', w') \<Longrightarrow>
    sys_step io fresh answers (w, ts) (w', ts[i := Splicing s' k up])"
| finished: "i < length ts \<Longrightarrow> ts ! i = Splicing s k up \<Longrightarrow>
    sys_step io fresh answers (w, ts)
      (w\<lparr>streams := drop_handle (row k) (streams w)\<rparr>, ts[i := Ended s k Spliced])"

definition initial :: "(nat \<Rightarrow> 'tok) \<Rightarrow> ('tok, 'client) world \<Rightarrow> bool" where
  "initial fresh w \<longleftrightarrow> totals w = new_metrics \<and> streams w = new_registry \<and> manager_wf fresh (tor w)"

inductive reachable ::
  "'s stream_ops \<Rightarrow> (nat \<Rightarrow> 'tok) \<Rightarrow> ('client \<Rightarrow> rstr \<times> u16 \<Rightarrow> 'tok \<Rightarrow> error + 'up \<Rightarrow> bool) \<Rightarrow>
   ('tok, 'client) world \<Rightarrow> ('tok, 'client) world \<times> ('s, 'tok, 'up) phase list \<Rightarrow> bool"
  for io fresh answers w0 where
  start: "reachable io fresh answers w0 (w0, [])"
| step: "reachable io fresh answers w0 c \<Longrightarrow> sys_step io fresh answers c c' \<Longrightarrow>
    reachable io fresh answers w0 c'"

inductive_cases sys_stepE: "sys_step io fresh answers (w, ts) (w', ts')"

section \<open>Counting tasks\<close>

definition tasks_with :: "('a \<Rightarrow> bool) \<Rightarrow> 'a list \<Rightarrow> nat" where
  "tasks_with P ts = length (filter P ts)"

lemma tasks_with_append [simp]: "tasks_with P (ts @ us) = tasks_with P ts + tasks_with P us"
  by (simp add: tasks_with_def)

lemma tasks_with_simps [simp]: "tasks_with P [] = 0" "tasks_with P (x # ts) = of_bool (P x) + tasks_with P ts"
  by (simp_all add: tasks_with_def)

lemma tasks_with_le: "tasks_with P ts \<le> length ts"
  by (simp add: tasks_with_def)

lemma tasks_with_update:
  assumes "i < length ts"
  shows "tasks_with P (ts[i := x]) + of_bool (P (ts ! i)) = tasks_with P ts + of_bool (P x)"
  using assms
proof (induction ts arbitrary: i)
  case (Cons a ts)
  show ?case
  proof (cases i)
    case (Suc j)
    with Cons.IH [of j] Cons.prems show ?thesis by simp
  qed simp
qed simp

lemma tasks_with_update_word:
  "i < length ts \<Longrightarrow>
   (of_nat (tasks_with P (ts[i := x])) :: u64) = of_nat (tasks_with P ts) + of_bool (P x) - of_bool (P (ts ! i))"
  using arg_cong [OF tasks_with_update, where f = "of_nat :: nat \<Rightarrow> u64", of i ts P x]
  by (simp add: algebra_simps)

lemma tasks_with_disj:
  "(\<And>x. P x \<longleftrightarrow> Q x \<or> R x) \<Longrightarrow> (\<And>x. \<not> (Q x \<and> R x)) \<Longrightarrow> tasks_with P ts = tasks_with Q ts + tasks_with R ts"
  by (induction ts) (auto simp: of_bool_def)

section \<open>The counters\<close>

definition counters_ok :: "('tok, 'client) world \<times> ('s, 'tok, 'up) phase list \<Rightarrow> bool" where
  "counters_ok c \<longleftrightarrow> (case c of (w, ts) \<Rightarrow>
     connects_total (totals w) = of_nat (tasks_with is_requested ts)
     \<and> connects_ok (totals w) = of_nat (tasks_with is_ok ts)
     \<and> connects_failed (totals w) = of_nat (tasks_with is_failed ts))"

lemma counters_step: "sys_step io fresh answers c c' \<Longrightarrow> counters_ok c \<Longrightarrow> counters_ok c'"
proof (induction rule: sys_step.induct)
  case (requested i ts s peer host port u s' w a t w')
  then show ?case
    using begin_connect_world(5) [OF requested(4)]
    by (simp add: counters_ok_def tasks_with_update_word is_requested_def metrics_defs)
next
  case (copied i ts s k up x w bytes s' w')
  obtain n m where "w' = add_traffic (row k) n m w" using metered_step_shared [OF copied(3)] by blast
  with copied show ?case
    by (simp add: counters_ok_def tasks_with_update_word is_requested_def add_traffic_fields)
qed (simp_all add: counters_ok_def tasks_with_update_word is_requested_def metrics_defs)

lemma counters_reachable:
  "reachable io fresh answers w0 c \<Longrightarrow> initial fresh w0 \<Longrightarrow> counters_ok c"
  by (induction rule: reachable.induct)
    (simp_all add: counters_step, simp add: counters_ok_def initial_def new_metrics_def)

lemma tasks_requested:
  "tasks_with is_requested ts = tasks_with is_ok ts + tasks_with is_failed ts + tasks_with is_undecided ts"
proof -
  have "tasks_with (\<lambda>p. is_ok p \<or> is_failed p) ts = tasks_with is_ok ts + tasks_with is_failed ts"
    by (rule tasks_with_disj) (auto elim!: is_ok.elims)
  moreover have "tasks_with is_requested ts = tasks_with (\<lambda>p. is_ok p \<or> is_failed p) ts + tasks_with is_undecided ts"
    by (rule tasks_with_disj) (auto simp: is_requested_split elim!: is_ok.elims is_failed.elims)
  ultimately show ?thesis by simp
qed

section \<open>The rows\<close>

text \<open>Every ticket has a row of its own, and the rows present are those of the open tasks.\<close>

definition tickets_ok :: "nat \<Rightarrow> 'tok ticket option list \<Rightarrow> bool" where
  "tickets_ok n tks \<longleftrightarrow> (\<forall>i < length tks. \<forall>k. tks ! i = Some k \<longrightarrow> row k < n) \<and>
     (\<forall>i < length tks. \<forall>j < length tks. \<forall>k l. i \<noteq> j \<longrightarrow> tks ! i = Some k \<longrightarrow> tks ! j = Some l \<longrightarrow> row k \<noteq> row l)"

definition open_rows :: "('s, 'tok, 'up) phase list \<Rightarrow> nat set" where
  "open_rows ts = {row k |i k. i < length ts \<and> is_open (ts ! i) \<and> ticket_of (ts ! i) = Some k}"

definition other_rows :: "nat \<Rightarrow> ('s, 'tok, 'up) phase list \<Rightarrow> nat set" where
  "other_rows i ts = {row k |j k. j < length ts \<and> j \<noteq> i \<and> is_open (ts ! j) \<and> ticket_of (ts ! j) = Some k}"

fun own_row :: "('s, 'tok, 'up) phase \<Rightarrow> nat set" where
  "own_row p = {row k |k. is_open p \<and> ticket_of p = Some k}"

lemma own_row_Connecting: "own_row (Connecting s k) = {row k}"
  by simp

lemma open_rows_split: "i < length ts \<Longrightarrow> open_rows ts = own_row (ts ! i) \<union> other_rows i ts"
  unfolding open_rows_def other_rows_def own_row.simps by blast

lemma open_rows_update: "i < length ts \<Longrightarrow> open_rows (ts[i := p]) = own_row p \<union> other_rows i ts"
  unfolding open_rows_def other_rows_def own_row.simps by (auto simp: nth_list_update split: if_splits)

lemma open_rows_append: "open_rows (ts @ [p]) = open_rows ts \<union> own_row p"
  unfolding open_rows_def own_row.simps by (auto simp: nth_append less_Suc_eq)

lemma open_rows_Nil [simp]: "open_rows [] = {}"
  by (simp add: open_rows_def)

lemma other_rows_fresh:
  "tickets_ok n (map ticket_of ts) \<Longrightarrow> i < length ts \<Longrightarrow> ticket_of (ts ! i) = Some k \<Longrightarrow> row k \<notin> other_rows i ts"
  by (force simp: tickets_ok_def other_rows_def)

lemma open_rows_bound: "tickets_ok n (map ticket_of ts) \<Longrightarrow> a \<in> open_rows ts \<Longrightarrow> a < n"
  by (force simp: tickets_ok_def open_rows_def)

lemma tickets_kept:
  "i < length ts \<Longrightarrow> ticket_of p = ticket_of (ts ! i) \<Longrightarrow> map ticket_of (ts[i := p]) = map ticket_of ts"
  by (metis list_update_id map_update)

lemma tickets_ok_append: "tickets_ok n tks \<Longrightarrow> tickets_ok n (tks @ [None])"
  by (auto simp: tickets_ok_def nth_append)

lemma tickets_ok_update:
  "tickets_ok n tks \<Longrightarrow> i < length tks \<Longrightarrow> row k = n \<Longrightarrow> tickets_ok (Suc n) (tks[i := Some k])"
  unfolding tickets_ok_def by (auto simp: nth_list_update less_Suc_eq)

definition rows_ok :: "('tok, 'client) world \<times> ('s, 'tok, 'up) phase list \<Rightarrow> bool" where
  "rows_ok c \<longleftrightarrow> (case c of (w, ts) \<Rightarrow>
     registry_wf (streams w)
     \<and> length (heap (streams w)) = tasks_with is_requested ts
     \<and> tickets_ok (tasks_with is_requested ts) (map ticket_of ts)
     \<and> (tasks_with is_requested ts \<le> 2 ^ 64 \<longrightarrow> live (streams w) = open_rows ts))"

text \<open>
  The steps that matter to the rows: one that keeps every ticket open or closed, one that
  closes a task, one that opens it.
\<close>

lemma rows_ok_keep:
  assumes "rows_ok (w, ts)" and "i < length ts" and "ticket_of p = ticket_of (ts ! i)"
    and "is_open p = is_open (ts ! i)" and "registry_wf (streams w')"
    and "length (heap (streams w')) = length (heap (streams w))" and "live (streams w') = live (streams w)"
  shows "rows_ok (w', ts[i := p])"
  using assms tickets_kept [OF assms(2,3)] tasks_with_update [OF assms(2), of is_requested p]
  by (simp add: rows_ok_def is_requested_def open_rows_update [OF assms(2)] open_rows_split [OF assms(2)])

lemma rows_ok_close:
  assumes "rows_ok (w, ts)" and "i < length ts" and "ticket_of (ts ! i) = Some k" and "ticket_of p = Some k"
    and "is_open (ts ! i)" and "\<not> is_open p"
  shows "rows_ok (w\<lparr>streams := drop_handle (row k) (streams w)\<rparr>, ts[i := p])"
proof -
  have ok: "registry_wf (streams w)" "tickets_ok (length (heap (streams w))) (map ticket_of ts)"
    using assms(1) by (simp_all add: rows_ok_def)
  have "row k < length (heap (streams w))" using ok(2) assms(2,3) by (auto simp: tickets_ok_def)
  then have "live (drop_handle (row k) (streams w)) = live (streams w) - {row k}"
    if "length (heap (streams w)) \<le> 2 ^ 64" using live_drop [OF ok(1) that] by blast
  moreover have "open_rows (ts[i := p]) = open_rows ts - {row k}"
    using other_rows_fresh [OF ok(2) assms(2,3)] assms
    by (simp add: open_rows_update [OF assms(2)] open_rows_split [OF assms(2)])
  ultimately show ?thesis
    using assms tickets_kept [OF assms(2), of p] tasks_with_update [OF assms(2), of is_requested p] drop_wf [OF ok(1)]
    by (simp add: rows_ok_def is_requested_def)
qed

lemma rows_ok_open:
  assumes "rows_ok (w, ts)" and "i < length ts" and "ticket_of (ts ! i) = None"
    and "begin_connect fresh peer host port u w = ((a, t), w')"
  shows "rows_ok (w', ts[i := Connecting s (Ticket a (host, port) u t)])"
proof -
  note b = begin_connect_world [OF assms(4)]
  let ?n = "length (heap (streams w))"
  have wf: "registry_wf (streams w)" and tk: "tickets_ok ?n (map ticket_of ts)"
    using assms(1) by (simp_all add: rows_ok_def)
  have n: "length (heap (streams w')) = Suc ?n" by (simp add: b register_heap)
  have "live (streams w') = insert ?n (live (streams w))" if "Suc ?n \<le> 2 ^ 64"
    using live_register [OF wf] that by (simp add: b)
  moreover have "own_row (ts ! i) = {}" using assms(3) by simp
  ultimately have "live (streams w') = open_rows (ts[i := Connecting s (Ticket a (host, port) u t)])"
    if "Suc ?n \<le> 2 ^ 64"
    using that assms(1) open_rows_split [OF assms(2)] open_rows_update [OF assms(2)]
    by (simp add: rows_ok_def b(1) own_row_Connecting del: own_row.simps)
  moreover have "tickets_ok (Suc ?n) (map ticket_of (ts[i := Connecting s (Ticket a (host, port) u t)]))"
    using tickets_ok_update [OF tk, of i "Ticket a (host, port) u t"] assms(2) by (simp add: map_update b(1))
  ultimately show ?thesis
    using assms(1,3) n b(4) register_wf [OF wf]
      tasks_with_update [OF assms(2), of is_requested "Connecting s (Ticket a (host, port) u t)"]
    by (simp add: rows_ok_def is_requested_def)
qed

lemma rows_step: "sys_step io fresh answers c c' \<Longrightarrow> rows_ok c \<Longrightarrow> rows_ok c'"
proof (induction rule: sys_step.induct)
  case (tick w ts n)
  then show ?case by (simp add: rows_ok_def)
next
  case (accepted w ts s peer)
  then show ?case by (simp add: rows_ok_def is_requested_def tickets_ok_append open_rows_append)
next
  case (refused i ts s peer e s' w)
  then show ?case by (intro rows_ok_keep) (auto simp: rows_ok_def)
next
  case (requested i ts s peer host port u s' w a t w')
  then show ?case by (intro rows_ok_open) simp_all
next
  case (tor_error i ts s k w e)
  then show ?case by (intro rows_ok_keep) (auto simp: rows_ok_def)
next
  case (fail_reply i ts s k e x s' w)
  then show ?case by (intro rows_ok_close) simp_all
next
  case (tor_ok i ts s k w up)
  then show ?case by (intro rows_ok_keep) (auto simp: rows_ok_def)
next
  case (ok_reply_lost i ts s k up e s' w)
  then show ?case by (intro rows_ok_close) simp_all
next
  case (ok_reply i ts s k up s' w)
  then show ?case by (intro rows_ok_keep) (auto simp: rows_ok_def)
next
  case (copied i ts s k up x w bytes s' w')
  obtain n m where "w' = add_traffic (row k) n m w" using metered_step_shared [OF copied(3)] by blast
  with copied show ?case
    by (intro rows_ok_keep) (auto simp: rows_ok_def add_traffic_wf add_traffic_fields)
next
  case (finished i ts s k up w)
  then show ?case by (intro rows_ok_close) simp_all
qed

lemma rows_reachable: "reachable io fresh answers w0 c \<Longrightarrow> initial fresh w0 \<Longrightarrow> rows_ok c"
proof (induction rule: reachable.induct)
  case start
  then show ?case
    by (simp add: rows_ok_def initial_def registry_wf_new) (simp add: new_registry_def tickets_ok_def)
qed (blast intro: rows_step)

section \<open>The byte counters\<close>

text \<open>The process totals are the sums over every row there ever was.\<close>

definition bytes_ok :: "('tok, 'client) world \<times> ('s, 'tok, 'up) phase list \<Rightarrow> bool" where
  "bytes_ok c \<longleftrightarrow> (case c of (w, ts) \<Rightarrow>
     bytes_to_upstream (totals w) = sum_list (map to_upstream (heap (streams w)))
     \<and> bytes_to_client (totals w) = sum_list (map to_client (heap (streams w))))"

lemma sum_list_add_at:
  "a < length xs \<Longrightarrow> f x = f (xs ! a) + n \<Longrightarrow> sum_list (map f (xs[a := x])) = sum_list (map f xs) + (n :: u64)"
proof (induction xs arbitrary: a)
  case (Cons y xs)
  then show ?case by (cases a) (simp_all add: algebra_simps)
qed simp

lemma sum_list_same_at:
  "f x = f (xs ! a) \<Longrightarrow> sum_list (map f (xs[a := x])) = sum_list (map f xs)"
  by (metis list_update_id map_update)

lemma bytes_ok_traffic:
  assumes "bytes_ok (w, ts)" and "a < length (heap (streams w))"
  shows "bytes_ok (add_traffic a up down w, ts')"
proof -
  define g where "g = entry_upstream a up (streams w)"
  have "sum_list (map to_upstream (heap g)) = sum_list (map to_upstream (heap (streams w))) + up"
    "sum_list (map to_client (heap g)) = sum_list (map to_client (heap (streams w)))"
    using assms(2) by (simp_all add: g_def entry_upstream_def fetch_add_def sum_list_add_at sum_list_same_at)
  moreover have "sum_list (map to_client (heap (entry_client a down g))) = sum_list (map to_client (heap g)) + down"
    "sum_list (map to_upstream (heap (entry_client a down g))) = sum_list (map to_upstream (heap g))"
    using assms(2) by (simp_all add: g_def entry_client_def fetch_add_def sum_list_add_at sum_list_same_at)
  moreover have "streams (add_traffic a up down w) = entry_client a down g"
    by (simp add: add_traffic_def meter_upstream_def meter_client_def g_def)
  ultimately show ?thesis using assms(1) by (simp add: bytes_ok_def add_traffic_fields)
qed

lemma bytes_step: "sys_step io fresh answers c c' \<Longrightarrow> rows_ok c \<Longrightarrow> bytes_ok c \<Longrightarrow> bytes_ok c'"
proof (induction rule: sys_step.induct)
  case (requested i ts s peer host port u s' w a t w')
  then show ?case
    using begin_connect_world [OF requested(4)]
    by (simp add: bytes_ok_def register_heap new_entry_def metrics_defs)
next
  case (copied i ts s k up x w bytes s' w')
  obtain n m where "w' = add_traffic (row k) n m w" using metered_step_shared [OF copied(3)] by blast
  moreover have "row k < length (heap (streams w))"
    using copied(1,2,4) by (auto simp: rows_ok_def tickets_ok_def)
  ultimately show ?case using bytes_ok_traffic copied(5) by blast
qed (simp_all add: bytes_ok_def metrics_defs drop_handle_def)

lemma bytes_reachable: "reachable io fresh answers w0 c \<Longrightarrow> initial fresh w0 \<Longrightarrow> bytes_ok c"
proof (induction rule: reachable.induct)
  case start
  then show ?case by (simp add: bytes_ok_def initial_def new_registry_def new_metrics_def)
next
  case (step c c')
  then show ?case using rows_reachable bytes_step by blast
qed

section \<open>The tokens\<close>

text \<open>Every ticket has the token its user has under the policy; drawn tokens never repeat.\<close>

definition tokens_ok :: "(nat \<Rightarrow> 'tok) \<Rightarrow> ('tok, 'client) tor_manager \<Rightarrow> 'tok ticket option list \<Rightarrow> bool" where
  "tokens_ok fresh m tks \<longleftrightarrow> manager_wf fresh m \<and>
     (\<forall>i < length tks. \<forall>k. tks ! i = Some k \<longrightarrow>
        (case policy m of Shared \<Rightarrow> tok k = default_token m
         | PerUpstream \<Rightarrow> token_of m (user k) = Some (tok k)
         | PerQuery \<Rightarrow> tok k \<in> fresh ` {..<tokens_drawn m})) \<and>
     (policy m = PerQuery \<longrightarrow>
        (\<forall>i < length tks. \<forall>j < length tks. \<forall>k l. i \<noteq> j \<longrightarrow> tks ! i = Some k \<longrightarrow> tks ! j = Some l \<longrightarrow> tok k \<noteq> tok l))"

lemma tokens_ok_append: "tokens_ok fresh m tks \<Longrightarrow> tokens_ok fresh m (tks @ [None])"
  by (auto simp: tokens_ok_def nth_append)

lemma tokens_ok_open:
  assumes "inj fresh" and "tokens_ok fresh m tks" and "i < length tks"
  shows "tokens_ok fresh (snd (isolation_token fresh u m))
    (tks[i := Some (Ticket a x u (fst (isolation_token fresh u m)))])"
proof -
  let ?t = "fst (isolation_token fresh u m)" and ?m = "snd (isolation_token fresh u m)"
  have wf: "manager_wf fresh m" and wf': "manager_wf fresh ?m"
    using assms(1,2) isolation_token_wf by (auto simp: tokens_ok_def)
  show ?thesis
  proof (cases "policy m")
    case Shared
    with assms(2,3) wf' show ?thesis
      by (auto simp: tokens_ok_def nth_list_update isolation_token_def)
  next
    case PerUpstream
    with assms(2,3) wf' token_of_kept [OF wf, where user = u]
      isolation_token_of [OF wf PerUpstream, of u]
    show ?thesis by (auto simp: tokens_ok_def nth_list_update)
  next
    case PerQuery
    have "?t = fresh (tokens_drawn m)" and m: "?m = m\<lparr>tokens_drawn := Suc (tokens_drawn m)\<rparr>"
      using PerQuery by (simp_all add: isolation_token_def)
    moreover have "?t \<notin> fresh ` {..<tokens_drawn m}" using fresh_unused [OF assms(1)] by (simp add: calculation(1))
    moreover have "tokens_drawn ?m = Suc (tokens_drawn m)" "policy ?m = PerQuery" using PerQuery m by simp_all
    ultimately show ?thesis
      using assms(2,3) wf' PerQuery
      by (auto simp: tokens_ok_def nth_list_update lessThan_Suc)
  qed
qed

definition sys_tokens_ok :: "(nat \<Rightarrow> 'tok) \<Rightarrow> isolation_policy \<Rightarrow> ('tok, 'client) world \<times> ('s, 'tok, 'up) phase list \<Rightarrow> bool" where
  "sys_tokens_ok fresh p c \<longleftrightarrow> (case c of (w, ts) \<Rightarrow> tokens_ok fresh (tor w) (map ticket_of ts) \<and> policy (tor w) = p)"

lemma sys_tokens_step:
  assumes "inj fresh"
  shows "sys_step io fresh answers c c' \<Longrightarrow> sys_tokens_ok fresh p c \<Longrightarrow> sys_tokens_ok fresh p c'"
proof (induction rule: sys_step.induct)
  case (accepted w ts s peer)
  then show ?case by (simp add: sys_tokens_ok_def tokens_ok_append)
next
  case (requested i ts s peer host port u s' w a t w')
  then show ?case
    using begin_connect_world(2,3) [OF requested(4)]
      tokens_ok_open [OF assms, of "tor w" "map ticket_of ts" i u a "(host, port)"]
    by (simp add: sys_tokens_ok_def map_update)
next
  case (copied i ts s k up x w bytes s' w')
  obtain n m where "w' = add_traffic (row k) n m w" using metered_step_shared [OF copied(3)] by blast
  with copied show ?case by (simp add: sys_tokens_ok_def tickets_kept)
qed (simp_all add: sys_tokens_ok_def tickets_kept)

lemma sys_tokens_reachable:
  assumes "inj fresh" and "initial fresh w0"
  shows "reachable io fresh answers w0 c \<Longrightarrow> sys_tokens_ok fresh (policy (tor w0)) c"
proof (induction rule: reachable.induct)
  case start
  show ?case using assms(2) by (simp add: sys_tokens_ok_def tokens_ok_def initial_def)
qed (blast intro: sys_tokens_step [OF assms(1)])

definition shares :: "isolation_policy \<Rightarrow> 'tok ticket \<Rightarrow> 'tok ticket \<Rightarrow> bool" where
  "shares p k l = (case p of Shared \<Rightarrow> True | PerUpstream \<Rightarrow> user k = user l | PerQuery \<Rightarrow> False)"

lemma shares_antimono: "p \<le> q \<Longrightarrow> shares q k l \<Longrightarrow> shares p k l"
  by (cases p; cases q) (simp_all add: shares_def less_eq_isolation_policy_def)

lemma tokens_ok_shares:
  assumes "tokens_ok fresh m tks" and "i < length tks" and "j < length tks" and "i \<noteq> j"
    and "tks ! i = Some k" and "tks ! j = Some l"
  shows "tok k = tok l \<longleftrightarrow> shares (policy m) k l"
proof (cases "policy m")
  case PerUpstream
  have wf: "manager_wf fresh m" using assms(1) by (simp add: tokens_ok_def)
  have "token_of m (user k) = Some (tok k)" "token_of m (user l) = Some (tok l)"
    using assms PerUpstream by (auto simp: tokens_ok_def)
  with token_of_inject [OF wf] PerUpstream show ?thesis by (auto simp: shares_def)
qed (use assms in \<open>auto simp: tokens_ok_def shares_def\<close>)

section \<open>Answers\<close>

text \<open>A task past the opening of its stream has a positive answer of arti.\<close>

fun opened :: "('client \<Rightarrow> rstr \<times> u16 \<Rightarrow> 'tok \<Rightarrow> error + 'up \<Rightarrow> bool) \<Rightarrow> 'client \<Rightarrow> ('s, 'tok, 'up) phase \<Rightarrow> bool" where
  "opened answers c (OkReply s k up) \<longleftrightarrow> answers c (asked k) (tok k) (Inr up)"
| "opened answers c (Splicing s k up) \<longleftrightarrow> answers c (asked k) (tok k) (Inr up)"
| "opened answers c (Ended s k oc) \<longleftrightarrow> (oc = FailedClosed \<longrightarrow> (\<exists>e. answers c (asked k) (tok k) (Inl e)))
     \<and> (oc \<noteq> FailedClosed \<longrightarrow> (\<exists>up. answers c (asked k) (tok k) (Inr up)))"
| "opened answers c (FailReply s k e) \<longleftrightarrow> answers c (asked k) (tok k) (Inl e)"
| "opened answers c _ = True"

definition answers_ok :: "('client \<Rightarrow> rstr \<times> u16 \<Rightarrow> 'tok \<Rightarrow> error + 'up \<Rightarrow> bool) \<Rightarrow> 'client \<Rightarrow>
    ('tok, 'client) world \<times> ('s, 'tok, 'up) phase list \<Rightarrow> bool" where
  "answers_ok answers c0 c \<longleftrightarrow> (case c of (w, ts) \<Rightarrow> client (tor w) = c0 \<and> list_all (opened answers c0) ts)"

lemma list_all_update: "list_all P xs \<Longrightarrow> P x \<Longrightarrow> list_all P (xs[i := x])"
  by (auto simp: list_all_iff dest!: set_update_subset_insert [THEN subsetD])

lemma answers_step:
  "sys_step io fresh answers c c' \<Longrightarrow> answers_ok answers c0 c \<Longrightarrow> answers_ok answers c0 c'"
proof (induction rule: sys_step.induct)
  case (requested i ts s peer host port u s' w a t w')
  then show ?case
    using begin_connect_world(3) [OF requested(4)] by (simp add: answers_ok_def list_all_update)
next
  case (copied i ts s k up x w bytes s' w')
  obtain n m where "w' = add_traffic (row k) n m w" using metered_step_shared [OF copied(3)] by blast
  with copied show ?case
    by (auto simp: answers_ok_def list_all_length nth_list_update)
qed (auto simp: answers_ok_def list_all_length nth_list_update nth_append; metis opened.simps)+

lemma answers_reachable:
  "reachable io fresh answers w0 c \<Longrightarrow> answers_ok answers (client (tor w0)) c"
  by (induction rule: reachable.induct) (simp add: answers_ok_def, blast intro: answers_step)

section \<open>One connection is a run of the system\<close>

abbreviation sys_steps where
  "sys_steps io fresh answers \<equiv> (sys_step io fresh answers)\<^sup>*\<^sup>*"

text \<open>The steps of the task that was accepted last.\<close>

lemma refused_last:
  "handshake io s = (Inl e, s') \<Longrightarrow>
   sys_step io fresh answers (w, ts @ [Negotiating s peer]) (w, ts @ [Refused s'])"
  by (rule sys_step.refused [where i = "length ts" and ts = "ts @ [Negotiating s peer]" and s = s and peer = peer,
      unfolded list_update_length]) simp_all

lemma requested_last:
  "handshake io s = (Inr (host, port, u), s') \<Longrightarrow> begin_connect fresh peer host port u w = ((a, t), w') \<Longrightarrow>
   sys_step io fresh answers (w, ts @ [Negotiating s peer]) (w', ts @ [Connecting s' (Ticket a (host, port) u t)])"
  by (rule sys_step.requested [where i = "length ts" and ts = "ts @ [Negotiating s peer]" and s = s and peer = peer,
      unfolded list_update_length]) simp_all

lemma tor_error_last:
  "answers (client (tor w)) (asked k) (tok k) (Inl e) \<Longrightarrow>
   sys_step io fresh answers (w, ts @ [Connecting s k])
     (w\<lparr>totals := count_failed (totals w)\<rparr>, ts @ [FailReply s k e])"
  by (rule sys_step.tor_error [where i = "length ts" and ts = "ts @ [Connecting s k]" and s = s and k = k,
      unfolded list_update_length]) simp_all

lemma fail_reply_last:
  "send_reply io REP_GENERAL_FAILURE s = (x, s') \<Longrightarrow>
   sys_step io fresh answers (w, ts @ [FailReply s k e])
     (w\<lparr>streams := drop_handle (row k) (streams w)\<rparr>, ts @ [Ended s' k FailedClosed])"
  by (rule sys_step.fail_reply [where i = "length ts" and ts = "ts @ [FailReply s k e]" and s = s and k = k and e = e,
      unfolded list_update_length]) simp_all

lemma tor_ok_last:
  "answers (client (tor w)) (asked k) (tok k) (Inr up) \<Longrightarrow>
   sys_step io fresh answers (w, ts @ [Connecting s k]) (w, ts @ [OkReply s k up])"
  by (rule sys_step.tor_ok [where i = "length ts" and ts = "ts @ [Connecting s k]" and s = s and k = k,
      unfolded list_update_length]) simp_all

lemma ok_reply_lost_last:
  "send_reply io REP_SUCCESS s = (Inl e, s') \<Longrightarrow>
   sys_step io fresh answers (w, ts @ [OkReply s k up])
     (w\<lparr>streams := drop_handle (row k) (streams w)\<rparr>, ts @ [Ended s' k ReplyLost])"
  by (rule sys_step.ok_reply_lost [where i = "length ts" and ts = "ts @ [OkReply s k up]" and s = s and k = k and up = up,
      unfolded list_update_length]) simp_all

lemma ok_reply_last:
  "send_reply io REP_SUCCESS s = (Inr (), s') \<Longrightarrow>
   sys_step io fresh answers (w, ts @ [OkReply s k up]) (w\<lparr>totals := count_ok (totals w)\<rparr>, ts @ [Splicing s' k up])"
  by (rule sys_step.ok_reply [where i = "length ts" and ts = "ts @ [OkReply s k up]" and s = s and k = k and up = up,
      unfolded list_update_length]) simp_all

lemma copied_last:
  "metered_step io (row k) x (s, w) = (bytes, s', w') \<Longrightarrow>
   sys_step io fresh answers (w, ts @ [Splicing s k up]) (w', ts @ [Splicing s' k up])"
  by (rule sys_step.copied [where i = "length ts" and ts = "ts @ [Splicing s k up]" and s = s and k = k and up = up,
      unfolded list_update_length]) simp_all

lemma finished_last:
  "sys_step io fresh answers (w, ts @ [Splicing s k up])
     (w\<lparr>streams := drop_handle (row k) (streams w)\<rparr>, ts @ [Ended s k Spliced])"
  by (rule sys_step.finished [where i = "length ts" and ts = "ts @ [Splicing s k up]" and s = s and k = k and up = up,
      unfolded list_update_length]) simp_all

lemma copied_run:
  "metered_run io (row k) xs (s, w) = (bytes, s', w') \<Longrightarrow>
   sys_steps io fresh answers (w, ts @ [Splicing s k up]) (w', ts @ [Splicing s' k up])"
proof (induction xs arbitrary: s w bytes)
  case (Cons x xs)
  obtain b1 s1 w1 where one: "metered_step io (row k) x (s, w) = (b1, s1, w1)" by (metis prod_cases3)
  then obtain b2 where "metered_run io (row k) xs (s1, w1) = (b2, s', w')"
    using Cons.prems by (auto split: prod.splits)
  then show ?case by (rule converse_rtranclp_into_rtranclp [OF copied_last [OF one] Cons.IH])
qed simp

text \<open>Chains of a few steps.\<close>

lemma steps_3:
  "sys_step io fresh answers c0 c1 \<Longrightarrow> sys_step io fresh answers c1 c2 \<Longrightarrow> sys_step io fresh answers c2 c3 \<Longrightarrow>
   sys_steps io fresh answers c0 c3"
  by (meson converse_rtranclp_into_rtranclp rtranclp.rtrancl_refl)

lemma ended_run:
  "sys_steps io fresh answers c (w', ts @ [Ended s' k oc]) \<Longrightarrow>
   \<exists>p. (p = Refused s' \<or> (\<exists>k oc. p = Ended s' k oc)) \<and> sys_steps io fresh answers c (w', ts @ [p])"
  by (intro exI [of _ "Ended s' k oc"]) simp

lemma handle_run:
  assumes "handle io fresh connect_with_prefs copy peer s w = (r, s', w')"
    and "\<And>c x t. answers c x t (connect_with_prefs c x t)"
  shows "\<exists>p. (p = Refused s' \<or> (\<exists>k oc. p = Ended s' k oc)) \<and>
    sys_steps io fresh answers (w, ts @ [Negotiating s peer]) (w', ts @ [p])"
  using assms(1)
proof (cases rule: handle_courses)
  case (refused e)
  have "sys_steps io fresh answers (w, ts @ [Negotiating s peer]) (w, ts @ [Refused s'])"
    by (rule r_into_rtranclp) (rule refused_last [OF refused(1)])
  then show ?thesis unfolding refused(3) by (intro exI conjI disjI1) (rule refl)
next
  case (failed host port user s1 a t w1 e w2)
  let ?k = "Ticket a (host, port) user t" and ?w = "w1\<lparr>totals := count_failed (totals w1)\<rparr>"
  have "answers (client (tor w1)) (asked ?k) (tok ?k) (Inl e)"
    using begin_connect_world(3) [OF failed(2)] failed(3) assms(2) [of "client (tor w)" "(host, port)" t] by simp
  note tor = tor_error_last [of answers, OF this]
  have w2: "w2 = ?w" "s' = snd (send_reply io REP_GENERAL_FAILURE s1)"
    using tor_failed_world [OF failed(4)] by blast+
  then obtain x where "send_reply io REP_GENERAL_FAILURE s1 = (x, s')" by (metis prod.collapse)
  note chain = steps_3 [OF requested_last [OF failed(1,2)] tor fail_reply_last [OF this]]
  have "w' = ?w\<lparr>streams := drop_handle (row ?k) (streams ?w)\<rparr>" using failed(5) w2(1) by simp
  then show ?thesis by (simp only:) (rule ended_run [OF chain])
next
  case (unanswered host port user s1 a t w1 up e)
  let ?k = "Ticket a (host, port) user t"
  have "answers (client (tor w1)) (asked ?k) (tok ?k) (Inr up)"
    using begin_connect_world(3) [OF unanswered(2)] unanswered(3) assms(2) [of "client (tor w)" "(host, port)" t]
    by simp
  note tor = tor_ok_last [of answers, OF this]
  note chain = steps_3 [OF requested_last [OF unanswered(1,2)] tor ok_reply_lost_last [OF unanswered(4)]]
  have "w' = w1\<lparr>streams := drop_handle (row ?k) (streams w1)\<rparr>" using unanswered(6) by simp
  then show ?thesis by (simp only:) (rule ended_run [OF chain])
next
  case (spliced host port user s1 a t w1 up s2 ops res bytes w3)
  let ?k = "Ticket a (host, port) user t"
  have "answers (client (tor w1)) (asked ?k) (tok ?k) (Inr up)"
    using begin_connect_world(3) [OF spliced(2)] spliced(3) assms(2) [of "client (tor w)" "(host, port)" t] by simp
  note tor = tor_ok_last [of answers, OF this]
  note open_steps = steps_3 [OF requested_last [OF spliced(1,2)] tor ok_reply_last [OF spliced(4)]]
  have "metered_run io (row ?k) ops (s2, w1\<lparr>totals := count_ok (totals w1)\<rparr>) = (bytes, s', w3)"
    using spliced(6) by simp
  note run = rtranclp_trans [OF open_steps copied_run [OF this]]
  have "w' = w3\<lparr>streams := drop_handle (row ?k) (streams w3)\<rparr>" using spliced(8) by simp
  then show ?thesis 
    by (simp only:) (rule ended_run, rule rtranclp.rtrancl_into_rtrancl [OF run], rule finished_last)
qed

lemma reachable_steps:
  "sys_steps io fresh answers c c' \<Longrightarrow> reachable io fresh answers w0 c \<Longrightarrow> reachable io fresh answers w0 c'"
  by (induction rule: rtranclp_induct) (auto intro: reachable.step)

section \<open>What a task asks for\<close>

text \<open>A step accepts a task, leaves it alone, or takes it from its negotiation or its ticket on.\<close>

lemma task_step:
  assumes "sys_step io fresh answers c c'" and "i < length (snd c')"
  shows "(\<exists>s peer. snd c' = snd c @ [Negotiating s peer] \<and> fst c' = fst c \<and> i = length (snd c))
    \<or> i < length (snd c) \<and>
       (snd c' ! i = snd c ! i
        \<or> (\<exists>s peer e s'. snd c ! i = Negotiating s peer \<and> handshake io s = (Inl e, s') \<and> snd c' ! i = Refused s')
        \<or> (\<exists>s peer k s'. snd c ! i = Negotiating s peer \<and> ticket_of (snd c' ! i) = Some k
             \<and> handshake io s = (Inr (fst (asked k), snd (asked k), user k), s'))
        \<or> (\<exists>k. ticket_of (snd c ! i) = Some k \<and> ticket_of (snd c' ! i) = Some k))"
  using assms
proof (induction rule: sys_step.induct)
  case (accepted w ts s peer)
  then show ?case by (cases "i = length ts") (auto simp: nth_append)
next
  case (requested j ts s peer host port u s' w a t w')
  then show ?case by (cases "i = j") auto
next
  case (refused j ts s peer e s' w)
  then show ?case by (cases "i = j") auto
qed (auto simp: nth_list_update)

text \<open>
  Task \<open>i\<close> of a state was accepted with stream \<open>s0\<close>, and where its negotiation on that stream has
  got it.
\<close>

definition accepted_as ::
  "'s stream_ops \<Rightarrow> (nat \<Rightarrow> 'tok) \<Rightarrow> ('client \<Rightarrow> rstr \<times> u16 \<Rightarrow> 'tok \<Rightarrow> error + 'up \<Rightarrow> bool) \<Rightarrow> ('tok, 'client) world \<Rightarrow>
   nat \<Rightarrow> 's \<Rightarrow> ('tok, 'client) world \<times> ('s, 'tok, 'up) phase list \<Rightarrow> bool" where
  "accepted_as io fresh answers w0 i s0 c \<longleftrightarrow> i < length (snd c) \<and>
     (\<exists>w1 ts1 peer. reachable io fresh answers w0 (w1, ts1) \<and> length ts1 = i
        \<and> sys_steps io fresh answers (w1, ts1 @ [Negotiating s0 peer]) c)"

definition task_ok :: "'s stream_ops \<Rightarrow> 's \<Rightarrow> ('s, 'tok, 'up) phase \<Rightarrow> bool" where
  "task_ok io s0 p \<longleftrightarrow> (case p of
      Negotiating s peer \<Rightarrow> s = s0
    | Refused s \<Rightarrow> (\<exists>e. handshake io s0 = (Inl e, s))
    | _ \<Rightarrow> (\<exists>s'. handshake io s0 = (Inr (fst (asked (the (ticket_of p))), snd (asked (the (ticket_of p))),
               user (the (ticket_of p))), s')))"

lemma task_ok_ticket: "ticket_of p = Some k \<Longrightarrow>
   task_ok io s0 p \<longleftrightarrow> (\<exists>s'. handshake io s0 = (Inr (fst (asked k), snd (asked k), user k), s'))"
  by (cases p) (simp_all add: task_ok_def)

lemma task_origin:
  assumes "reachable io fresh answers w0 c" and "i < length (snd c)"
  shows "\<exists>s0. accepted_as io fresh answers w0 i s0 c \<and> task_ok io s0 (snd c ! i)"
  using assms
proof (induction arbitrary: i rule: reachable.induct)
  case (step c c')
  from task_step [OF step(2,4)] show ?case
  proof (elim disjE)
    assume "\<exists>s peer. snd c' = snd c @ [Negotiating s peer] \<and> fst c' = fst c \<and> i = length (snd c)"
    then obtain s peer where c': "c' = (fst c, snd c @ [Negotiating s peer])" "i = length (snd c)"
      by (metis prod.collapse)
    moreover have "reachable io fresh answers w0 (fst c, snd c)" using step(1) by simp
    ultimately have "accepted_as io fresh answers w0 i s c'"
      unfolding accepted_as_def by (metis fst_conv snd_conv length_append_singleton lessI rtranclp.rtrancl_refl)
    with c' show ?thesis by (intro exI [of _ s]) (simp add: task_ok_def)
  next
    assume a: "i < length (snd c) \<and>
       (snd c' ! i = snd c ! i
        \<or> (\<exists>s peer e s'. snd c ! i = Negotiating s peer \<and> handshake io s = (Inl e, s') \<and> snd c' ! i = Refused s')
        \<or> (\<exists>s peer k s'. snd c ! i = Negotiating s peer \<and> ticket_of (snd c' ! i) = Some k
             \<and> handshake io s = (Inr (fst (asked k), snd (asked k), user k), s'))
        \<or> (\<exists>k. ticket_of (snd c ! i) = Some k \<and> ticket_of (snd c' ! i) = Some k))"
    then obtain s0 where s0: "accepted_as io fresh answers w0 i s0 c" "task_ok io s0 (snd c ! i)"
      using step.IH by blast
    have "accepted_as io fresh answers w0 i s0 c'"
      using s0(1) step(2,4) by (auto simp: accepted_as_def intro: rtranclp.rtrancl_into_rtrancl)
    moreover have "task_ok io s0 (snd c' ! i)"
      using a s0(2) by (auto simp: task_ok_ticket) (auto simp: task_ok_def)
    ultimately show ?thesis by blast
  qed
qed simp

end
