(* ===== verification/Proxy_Guarantees.thy ===== *)
theory Proxy_Guarantees
  imports Proxy_System
begin

text \<open>
  What holds in every reachable state of the proxy, for any number of connections
  interleaved in any way: the counters, the rows, the byte totals, circuit isolation and
  failing closed; and that \<open>handle\<close> is one of the runs.
\<close>

section \<open>An example state\<close>

definition any_answer :: "unit \<Rightarrow> rstr \<times> u16 \<Rightarrow> nat \<Rightarrow> error + unit \<Rightarrow> bool" where
  "any_answer c addr t r = True"

lemma reach_connecting:
  assumes "reachable io fresh answers w0 (w, ts)" and "handshake io s = (Inr (host, port, u), s')"
  obtains w' k where "reachable io fresh answers w0 (w', ts @ [Connecting s' k])" and "user k = u"
    and "asked k = (host, port)"
proof -
  obtain a t w' where b: "begin_connect fresh default_peer host port u w = ((a, t), w')"
    by (metis prod_cases3 surj_pair)
  have "reachable io fresh answers w0 (w, ts @ [Negotiating s default_peer])"
    by (rule reachable.step [OF assms(1) sys_step.accepted])
  from reachable.step [OF this requested_last [OF assms(2) b]] that show thesis by simp
qed

lemma example_initial: "initial id (example_world p)"
  by (simp add: initial_def example_world_def example_manager_wf)

text \<open>Two connections wait for arti, one without a username and one with it.\<close>

lemma example_handshakes:
  obtains s1 s2 where
    "handshake conn_ops (example_conn [example_v4_request]) = (Inr (ipv4_display (Ipv4 192 0 2 1), 80, None), s1)"
    "handshake conn_ops (example_conn [example_request]) = (Inr (lit ''a.onion'', 853, Some (lit ''dns'')), s2)"
    "10 \<le> tx_room s2"
proof -
  have "conn_unread (example_conn [example_request]) = greeting_bytes [0, 2] @
      auth_bytes (UserPass (lit ''dns'') [120]) @ request_bytes CMD_CONNECT 0 (DestName (lit ''a.onion'')) 853 @ []"
    unfolding example_request_bytes [symmetric] by (simp add: example_conn_def conn_unread_def)
  then obtain s2 where "handshake conn_ops (example_conn [example_request])
      = (Inr (dest_host (DestName (lit ''a.onion'')), 853, auth_user (UserPass (lit ''dns'') [120])), s2)"
      "tx_room (example_conn [example_request]) - 4 \<le> tx_room s2"
    by (rule conn.handshake_accepted [OF _ example_auth_ok example_dest_ok, rotated 2])
      (simp_all add: example_conn_def)
  moreover obtain s1 where "handshake conn_ops (example_conn [example_v4_request])
      = (Inr (ipv4_display (Ipv4 192 0 2 1), 80, None), s1)"
    using example_v4_run by blast
  ultimately show thesis by (intro that) (auto simp: example_conn_def simp del: ipv4_display.simps)
qed

lemma example_state:
  obtains w s1 s2 k l where
    "reachable conn_ops id any_answer (example_world p) (w, [Connecting s1 k, Connecting s2 l])"
    "user k = None" "user l = Some (lit ''dns'')" "10 \<le> tx_room s2"
proof -
  obtain s1 s2 where h: "handshake conn_ops (example_conn [example_v4_request])
      = (Inr (ipv4_display (Ipv4 192 0 2 1), 80, None), s1)"
    "handshake conn_ops (example_conn [example_request]) = (Inr (lit ''a.onion'', 853, Some (lit ''dns'')), s2)"
    "10 \<le> tx_room s2"
    by (rule example_handshakes)
  obtain w1 k where one: "reachable conn_ops id any_answer (example_world p) (w1, [] @ [Connecting s1 k])"
    and "user k = None"
    by (rule reach_connecting [OF reachable.start h(1)])
  moreover obtain w2 l where "reachable conn_ops id any_answer (example_world p)
      (w2, ([] @ [Connecting s1 k]) @ [Connecting s2 l])" and "user l = Some (lit ''dns'')"
    by (rule reach_connecting [OF one h(2)])
  ultimately show thesis using that h(3) by simp
qed

section \<open>Guarantees\<close>

text \<open>
  C20. Accounting: in every reachable state, \<open>connects_ok\<close> and \<open>connects_failed\<close> are the
  numbers of connections spliced and failed closed so far, and \<open>connects_total\<close> exceeds
  their sum by exactly the connections that are still undecided or whose success reply was
  lost (modulo \<open>2\<^sup>6\<^sup>4\<close>).
\<close>

theorem system_accounting:
  assumes "reachable io fresh answers w0 (w, ts)" and "initial fresh w0"
  shows "connects_ok (totals w) = of_nat (tasks_with is_ok ts)
    \<and> connects_failed (totals w) = of_nat (tasks_with is_failed ts)
    \<and> connects_total (totals w) = connects_ok (totals w) + connects_failed (totals w)
         + of_nat (tasks_with is_undecided ts)"
  using counters_reachable [OF assms] by (simp add: counters_ok_def tasks_requested)

theorem system_accounting_witness:
  "\<exists>w s1 s2 k l. reachable conn_ops id any_answer (example_world PerUpstream)
       (w, [Connecting s1 k, Connecting s2 l]) \<and> connects_total (totals w) = 2 \<and> connects_ok (totals w) = 0"
proof -
  obtain w s1 s2 k l where r: "reachable conn_ops id any_answer (example_world PerUpstream)
      (w, [Connecting s1 k, Connecting s2 l])"
    by (rule example_state)
  from system_accounting [OF this example_initial]
  have "connects_total (totals w) = 2" "connects_ok (totals w) = 0" by simp_all
  with r show ?thesis by blast
qed

lemma is_open_ticket: "is_open p \<Longrightarrow> \<exists>k. ticket_of p = Some k"
  by (cases p) simp_all

lemma card_open_rows:
  assumes "tickets_ok n (map ticket_of ts)"
  shows "card (open_rows ts) = tasks_with is_open ts"
proof -
  let ?I = "{i. i < length ts \<and> is_open (ts ! i)}" and ?f = "\<lambda>i. row (the (ticket_of (ts ! i)))"
  have "a \<in> open_rows ts \<longleftrightarrow> a \<in> ?f ` ?I" for a
  proof
    assume "a \<in> open_rows ts"
    then obtain i k where "i \<in> ?I" "ticket_of (ts ! i) = Some k" "a = row k" by (auto simp: open_rows_def)
    then show "a \<in> ?f ` ?I" by (intro image_eqI [of _ _ i]) simp_all
  next
    assume "a \<in> ?f ` ?I"
    then obtain i where i: "i \<in> ?I" "a = ?f i" by blast
    then obtain k where "ticket_of (ts ! i) = Some k" using is_open_ticket by blast
    with i show "a \<in> open_rows ts" by (auto simp: open_rows_def)
  qed
  then have "open_rows ts = ?f ` ?I" by blast
  moreover have "inj_on ?f ?I"
  proof (rule inj_onI)
    fix i j
    assume ij: "i \<in> ?I" "j \<in> ?I" "?f i = ?f j"
    then obtain k l where "ticket_of (ts ! i) = Some k" "ticket_of (ts ! j) = Some l" using is_open_ticket by blast
    with ij assms show "i = j" unfolding tickets_ok_def by (cases "i = j") auto
  qed
  ultimately have "card (open_rows ts) = card ?I" by (simp add: card_image)
  then show ?thesis by (simp add: tasks_with_def length_filter_conv_card)
qed

text \<open>
  C21. The stream list is exact: while at most \<open>2\<^sup>6\<^sup>4\<close> connections were requested, the rows of
  the registry are those of the connections between their request and their end, one each,
  and \<open>len\<close> is their number.
\<close>

theorem system_streams:
  assumes "reachable io fresh answers w0 (w, ts)" and "initial fresh w0"
    and "tasks_with is_requested ts \<le> 2 ^ 64"
  shows "live (streams w) = open_rows ts \<and> registry_len (streams w) = tasks_with is_open ts"
proof -
  have ok: "rows_ok (w, ts)" by (rule rows_reachable [OF assms(1,2)])
  then have "live (streams w) = open_rows ts" using assms(3) by (simp add: rows_ok_def)
  moreover have "registry_len (streams w) = card (live (streams w))"
    using ok by (simp add: rows_ok_def registry_len_live)
  moreover have "card (open_rows ts) = tasks_with is_open ts"
    using ok by (intro card_open_rows [of "tasks_with is_requested ts"]) (simp add: rows_ok_def)
  ultimately show ?thesis by simp
qed

theorem system_streams_witness:
  "\<exists>w s1 s2 k l. reachable conn_ops id any_answer (example_world PerUpstream)
       (w, [Connecting s1 k, Connecting s2 l]) \<and> registry_len (streams w) = 2"
proof -
  obtain w s1 s2 k l where r: "reachable conn_ops id any_answer (example_world PerUpstream)
      (w, [Connecting s1 k, Connecting s2 l])"
    by (rule example_state)
  have "tasks_with is_requested [Connecting s1 k, Connecting s2 l] \<le> 2 ^ 64"
    by (simp add: is_requested_def)
  from system_streams [OF r example_initial this] have "registry_len (streams w) = 2" by simp
  with r show ?thesis by blast
qed

text \<open>
  C28. The process byte totals are at any time the sums of the byte counters of all the rows
  there ever were, those of closed connections included (modulo \<open>2\<^sup>6\<^sup>4\<close>).
\<close>

theorem system_bytes:
  assumes "reachable io fresh answers w0 (w, ts)" and "initial fresh w0"
  shows "bytes_to_upstream (totals w) = sum_list (map to_upstream (heap (streams w)))
    \<and> bytes_to_client (totals w) = sum_list (map to_client (heap (streams w)))"
  using bytes_reachable [OF assms] by (simp add: bytes_ok_def)

theorem system_bytes_witness:
  "\<exists>w s1 s2 k l. reachable conn_ops id any_answer (example_world PerQuery)
       (w, [Connecting s1 k, Connecting s2 l])
     \<and> bytes_to_client (totals w) = sum_list (map to_client (heap (streams w)))"
proof -
  obtain w s1 s2 k l where r: "reachable conn_ops id any_answer (example_world PerQuery)
      (w, [Connecting s1 k, Connecting s2 l])"
    by (rule example_state)
  from system_bytes [OF this example_initial] r show ?thesis by blast
qed

text \<open>
  C3. Isolation across connections: in every reachable state the tokens of two connections
  agree exactly when the configured policy lets them share circuits.
\<close>

theorem system_isolation:
  assumes "reachable io fresh answers w0 (w, ts)" and "initial fresh w0" and "inj fresh"
    and "i < length ts" and "j < length ts" and "i \<noteq> j"
    and "ticket_of (ts ! i) = Some k" and "ticket_of (ts ! j) = Some l"
  shows "tok k = tok l \<longleftrightarrow>
    (case policy (tor w0) of Shared \<Rightarrow> True | PerUpstream \<Rightarrow> user k = user l | PerQuery \<Rightarrow> False)"
proof -
  have "tokens_ok fresh (tor w) (map ticket_of ts)" "policy (tor w) = policy (tor w0)"
    using sys_tokens_reachable [OF assms(3,2,1)] by (simp_all add: sys_tokens_ok_def)
  with tokens_ok_shares [of fresh "tor w" "map ticket_of ts" i j k l] assms(4-8)
  show ?thesis by (simp add: shares_def)
qed

theorem system_isolation_witness:
  "\<exists>w s1 s2 k l. reachable conn_ops id any_answer (example_world PerUpstream)
       (w, [Connecting s1 k, Connecting s2 l]) \<and> tok k \<noteq> tok l"
proof -
  obtain w s1 s2 k l where r: "reachable conn_ops id any_answer (example_world PerUpstream)
      (w, [Connecting s1 k, Connecting s2 l])" and "user k = None" "user l = Some (lit ''dns'')"
    by (rule example_state)
  with system_isolation [OF r example_initial inj_on_id, of 0 1 k l] have "tok k \<noteq> tok l"
    by (simp add: example_world_def example_manager_def)
  with r show ?thesis by blast
qed

text \<open>
  C2. Failing closed across connections. A connection past its negotiation holds the destination
  and the username that the negotiation with its own client returned, on the stream with which
  it was accepted; the success reply is on its way, and the connection is spliced, only if arti
  opened a stream for that destination and the token of the connection, and it is reported as
  failed only if arti returned an error for them.
\<close>

theorem system_fails_closed:
  assumes "reachable io fresh answers w0 (w, ts)" and "i < length ts" and "ticket_of (ts ! i) = Some k"
  shows "(\<exists>w1 ts1 s0 peer s1. reachable io fresh answers w0 (w1, ts1) \<and> length ts1 = i
      \<and> (sys_step io fresh answers)\<^sup>*\<^sup>* (w1, ts1 @ [Negotiating s0 peer]) (w, ts)
      \<and> handshake io s0 = (Inr (fst (asked k), snd (asked k), user k), s1))
    \<and> (case ts ! i of
         FailReply s _ e \<Rightarrow> answers (client (tor w0)) (asked k) (tok k) (Inl e)
       | OkReply s _ up \<Rightarrow> answers (client (tor w0)) (asked k) (tok k) (Inr up)
       | Splicing s _ up \<Rightarrow> answers (client (tor w0)) (asked k) (tok k) (Inr up)
       | Ended s _ FailedClosed \<Rightarrow> (\<exists>e. answers (client (tor w0)) (asked k) (tok k) (Inl e))
       | Ended s _ oc \<Rightarrow> (\<exists>up. answers (client (tor w0)) (asked k) (tok k) (Inr up))
       | _ \<Rightarrow> True)"
proof
  obtain s0 where "accepted_as io fresh answers w0 i s0 (w, ts)" "task_ok io s0 (ts ! i)"
    using task_origin [OF assms(1), of i] assms(2) by auto
  then show "\<exists>w1 ts1 s0 peer s1. reachable io fresh answers w0 (w1, ts1) \<and> length ts1 = i
      \<and> (sys_step io fresh answers)\<^sup>*\<^sup>* (w1, ts1 @ [Negotiating s0 peer]) (w, ts)
      \<and> handshake io s0 = (Inr (fst (asked k), snd (asked k), user k), s1)"
    unfolding accepted_as_def task_ok_ticket [OF assms(3)] by blast
  have "opened answers (client (tor w0)) (ts ! i)"
    using answers_reachable [OF assms(1)] assms(2) by (simp add: answers_ok_def list_all_length)
  with assms(3) show "case ts ! i of
         FailReply s _ e \<Rightarrow> answers (client (tor w0)) (asked k) (tok k) (Inl e)
       | OkReply s _ up \<Rightarrow> answers (client (tor w0)) (asked k) (tok k) (Inr up)
       | Splicing s _ up \<Rightarrow> answers (client (tor w0)) (asked k) (tok k) (Inr up)
       | Ended s _ FailedClosed \<Rightarrow> (\<exists>e. answers (client (tor w0)) (asked k) (tok k) (Inl e))
       | Ended s _ oc \<Rightarrow> (\<exists>up. answers (client (tor w0)) (asked k) (tok k) (Inr up))
       | _ \<Rightarrow> True"
    by (auto split: phase.split outcome.split)
qed

theorem system_fails_closed_witness:
  "\<exists>w s1 s2 k l s0 s. reachable conn_ops id any_answer (example_world PerUpstream)
       (w, [Connecting s1 k, Splicing s2 l ()])
     \<and> handshake conn_ops s0 = (Inr (fst (asked l), snd (asked l), Some (lit ''dns'')), s)
     \<and> any_answer () (asked l) (tok l) (Inr ())"
proof -
  obtain w s1 s2 k l where r: "reachable conn_ops id any_answer (example_world PerUpstream)
      (w, [Connecting s1 k] @ [Connecting s2 l])" and room: "10 \<le> tx_room s2" and u: "user l = Some (lit ''dns'')"
    by (rule example_state [of PerUpstream]) simp
  have ok: "reachable conn_ops id any_answer (example_world PerUpstream) (w, [Connecting s1 k] @ [OkReply s2 l ()])"
    by (rule reachable.step [OF r tor_ok_last]) (simp add: any_answer_def)
  obtain s3 where reply: "send_reply conn_ops REP_SUCCESS s2 = (Inr (), s3)"
    using conn.send_reply_roomy [OF room] by blast
  have splicing: "reachable conn_ops id any_answer (example_world PerUpstream)
      (w\<lparr>totals := count_ok (totals w)\<rparr>, [Connecting s1 k, Splicing s3 l ()])"
    using reachable.step [OF ok ok_reply_last [OF reply]] by simp
  from system_fails_closed [OF this, of 1 l] obtain s0 s where
    "handshake conn_ops s0 = (Inr (fst (asked l), snd (asked l), user l), s)" "any_answer () (asked l) (tok l) (Inr ())"
    by (auto simp: example_world_def example_manager_def)
  with splicing show ?thesis unfolding u by blast
qed

text \<open>
  C22. The sequential model is one of the interleavings: a run of \<open>handle\<close> on a fresh
  connection is a sequence of system steps that takes its task from the accept to its end,
  beside any other tasks, with the same final stream and shared state.
\<close>

theorem handle_refines_system:
  assumes "handle io fresh connect_with_prefs copy peer s w = (r, s', w')"
    and "\<And>c x t. answers c x t (connect_with_prefs c x t)"
  shows "\<exists>p. (p = Refused s' \<or> (\<exists>k oc. p = Ended s' k oc)) \<and>
    (sys_step io fresh answers)\<^sup>*\<^sup>* (w, ts @ [Negotiating s peer]) (w', ts @ [p])"
  by (rule handle_run [where answers = answers and connect_with_prefs = connect_with_prefs, OF assms])

theorem handle_refines_system_witness:
  "\<exists>s' w' p. (sys_step conn_ops id any_answer)\<^sup>*\<^sup>*
     (example_world PerQuery, [] @ [Negotiating (example_conn [example_v4_request]) default_peer]) (w', [] @ [p])
     \<and> (p = Refused s' \<or> (\<exists>k oc. p = Ended s' k oc))"
proof -
  obtain r s' w' where h: "handle conn_ops id (\<lambda>c addr t. Inr ()) example_copy_fun default_peer
      (example_conn [example_v4_request]) (example_world PerQuery) = (r, s', w')"
    by (metis prod_cases3)
  have "\<And>c x t. any_answer c x t (Inr ())" by (simp add: any_answer_def)
  from handle_refines_system [where answers = any_answer and ts = "[]", OF h this] show ?thesis by blast
qed

end
