(* ===== verification/Proxy_Awaits.thy ===== *)
theory Proxy_Awaits
  imports Socks_Awaits Proxy_Guarantees
begin

text \<open>
  The system of connections at the grain of single awaits, each of which may be left pending for
  any time: a client may be silent, a client may not take its reply, arti may not answer, and a
  copy may go on forever. What a connection may wait for, that it waits for nothing else, and that
  the system of theory \<open>Proxy_System\<close> is an abstraction of this one.
\<close>

section \<open>Tasks at their awaits\<close>

text \<open>
  A task is in its negotiation, with the rest of it and the stream, or in a later phase.
\<close>

datatype ('s, 'tok, 'up) task =
    Talking "(rstr \<times> u16 \<times> rstr option) talk" 's socket_addr
  | Beyond "('s, 'tok, 'up) phase"

datatype await = Reading nat | Writing "u8 list" | ForArti | Copying

fun awaits :: "('s, 'tok, 'up) task \<Rightarrow> await option" where
  "awaits (Talking (AwaitRead n f) s peer) = Some (Reading n)"
| "awaits (Talking (AwaitWrite b f) s peer) = Some (Writing b)"
| "awaits (Talking (Outcome r) s peer) = None"
| "awaits (Beyond (Negotiating s peer)) = None"
| "awaits (Beyond (Refused s)) = None"
| "awaits (Beyond (Connecting s k)) = Some ForArti"
| "awaits (Beyond (FailReply s k e)) = Some (Writing (reply_bytes REP_GENERAL_FAILURE))"
| "awaits (Beyond (OkReply s k up)) = Some (Writing (reply_bytes REP_SUCCESS))"
| "awaits (Beyond (Splicing s k up)) = Some Copying"
| "awaits (Beyond (Ended s k oc)) = None"

text \<open>
  How a task goes on when an await of its negotiation has returned: to the next await of it, or
  out of it, and then without another await up to the one of arti.
\<close>

fun resume ::
  "(nat \<Rightarrow> 'tok) \<Rightarrow> socket_addr \<Rightarrow> (rstr \<times> u16 \<times> rstr option) talk \<Rightarrow> 's \<Rightarrow> ('tok, 'client) world \<Rightarrow>
   ('s, 'tok, 'up) task \<times> ('tok, 'client) world" where
  "resume fresh peer (Outcome (Inl e)) s w = (Beyond (Refused s), w)"
| "resume fresh peer (Outcome (Inr (host, port, u))) s w =
     (case begin_connect fresh peer host port u w of
        ((a, t), w') \<Rightarrow> (Beyond (Connecting s (Ticket a (host, port) u t)), w'))"
| "resume fresh peer t s w = (Talking t s peer, w)"

section \<open>Steps\<close>

text \<open>
  Time passes and clients are accepted; task \<open>i\<close> takes a segment to its next await; or the copy of
  task \<open>i\<close> makes a call. \<open>ready now i x\<close> says whether the await \<open>x\<close> of task \<open>i\<close> can return at that
  time: the bytes have come or the stream has ended, the client takes the reply, arti has
  answered, the copy is over. Nothing is assumed of it.
\<close>

datatype step_kind = Passing | Segment nat | CopyCall nat

inductive await_step ::
  "'s stream_ops \<Rightarrow> (nat \<Rightarrow> 'tok) \<Rightarrow> ('client \<Rightarrow> rstr \<times> u16 \<Rightarrow> 'tok \<Rightarrow> error + 'up \<Rightarrow> bool) \<Rightarrow>
   (nat \<Rightarrow> nat \<Rightarrow> await \<Rightarrow> bool) \<Rightarrow> step_kind \<Rightarrow>
   ('tok, 'client) world \<times> ('s, 'tok, 'up) task list \<Rightarrow> ('tok, 'client) world \<times> ('s, 'tok, 'up) task list \<Rightarrow> bool"
  for io fresh answers ready where
  waited: "await_step io fresh answers ready Passing (w, ts) (w\<lparr>clock := clock w + n\<rparr>, ts)"
| came: "await_step io fresh answers ready Passing (w, ts) (w, ts @ [Talking talk_handshake s peer])"
| read: "i < length ts \<Longrightarrow> ts ! i = Talking (AwaitRead n f) s peer \<Longrightarrow> ready (clock w) i (Reading n) \<Longrightarrow>
    read_exact io n s = (x, s') \<Longrightarrow> resume fresh peer (f x) s' w = (p, w') \<Longrightarrow>
    await_step io fresh answers ready (Segment i) (w, ts) (w', ts[i := p])"
| wrote: "i < length ts \<Longrightarrow> ts ! i = Talking (AwaitWrite b g) s peer \<Longrightarrow> ready (clock w) i (Writing b) \<Longrightarrow>
    write_all io b s = (y, s') \<Longrightarrow> resume fresh peer (g y) s' w = (p, w') \<Longrightarrow>
    await_step io fresh answers ready (Segment i) (w, ts) (w', ts[i := p])"
| arti_failed: "i < length ts \<Longrightarrow> ts ! i = Beyond (Connecting s k) \<Longrightarrow> ready (clock w) i ForArti \<Longrightarrow>
    answers (client (tor w)) (asked k) (tok k) (Inl e) \<Longrightarrow>
    await_step io fresh answers ready (Segment i) (w, ts)
      (w\<lparr>totals := count_failed (totals w)\<rparr>, ts[i := Beyond (FailReply s k e)])"
| failure_told: "i < length ts \<Longrightarrow> ts ! i = Beyond (FailReply s k e) \<Longrightarrow>
    ready (clock w) i (Writing (reply_bytes REP_GENERAL_FAILURE)) \<Longrightarrow>
    send_reply io REP_GENERAL_FAILURE s = (z, s') \<Longrightarrow>
    await_step io fresh answers ready (Segment i) (w, ts)
      (w\<lparr>streams := drop_handle (row k) (streams w)\<rparr>, ts[i := Beyond (Ended s' k FailedClosed)])"
| arti_opened: "i < length ts \<Longrightarrow> ts ! i = Beyond (Connecting s k) \<Longrightarrow> ready (clock w) i ForArti \<Longrightarrow>
    answers (client (tor w)) (asked k) (tok k) (Inr up) \<Longrightarrow>
    await_step io fresh answers ready (Segment i) (w, ts) (w, ts[i := Beyond (OkReply s k up)])"
| success_lost: "i < length ts \<Longrightarrow> ts ! i = Beyond (OkReply s k up) \<Longrightarrow>
    ready (clock w) i (Writing (reply_bytes REP_SUCCESS)) \<Longrightarrow> send_reply io REP_SUCCESS s = (Inl e, s') \<Longrightarrow>
    await_step io fresh answers ready (Segment i) (w, ts)
      (w\<lparr>streams := drop_handle (row k) (streams w)\<rparr>, ts[i := Beyond (Ended s' k ReplyLost)])"
| success_told: "i < length ts \<Longrightarrow> ts ! i = Beyond (OkReply s k up) \<Longrightarrow>
    ready (clock w) i (Writing (reply_bytes REP_SUCCESS)) \<Longrightarrow> send_reply io REP_SUCCESS s = (Inr (), s') \<Longrightarrow>
    await_step io fresh answers ready (Segment i) (w, ts)
      (w\<lparr>totals := count_ok (totals w)\<rparr>, ts[i := Beyond (Splicing s' k up)])"
| copies: "i < length ts \<Longrightarrow> ts ! i = Beyond (Splicing s k up) \<Longrightarrow>
    metered_step io (row k) op (s, w) = (bytes, s', w') \<Longrightarrow>
    await_step io fresh answers ready (CopyCall i) (w, ts) (w', ts[i := Beyond (Splicing s' k up)])"
| copy_over: "i < length ts \<Longrightarrow> ts ! i = Beyond (Splicing s k up) \<Longrightarrow> ready (clock w) i Copying \<Longrightarrow>
    await_step io fresh answers ready (Segment i) (w, ts)
      (w\<lparr>streams := drop_handle (row k) (streams w)\<rparr>, ts[i := Beyond (Ended s k Spliced)])"

inductive_cases await_stepE: "await_step io fresh answers ready l (w, ts) (w', ts')"

inductive await_reach ::
  "'s stream_ops \<Rightarrow> (nat \<Rightarrow> 'tok) \<Rightarrow> ('client \<Rightarrow> rstr \<times> u16 \<Rightarrow> 'tok \<Rightarrow> error + 'up \<Rightarrow> bool) \<Rightarrow>
   (nat \<Rightarrow> nat \<Rightarrow> await \<Rightarrow> bool) \<Rightarrow> ('tok, 'client) world \<Rightarrow>
   ('tok, 'client) world \<times> ('s, 'tok, 'up) task list \<Rightarrow> bool"
  for io fresh answers ready w0 where
  nobody: "await_reach io fresh answers ready w0 (w0, [])"
| moved: "await_reach io fresh answers ready w0 c \<Longrightarrow> await_step io fresh answers ready l c c' \<Longrightarrow>
    await_reach io fresh answers ready w0 c'"

section \<open>The system of connections as an abstraction\<close>

text \<open>
  A negotiation under way is one that has not begun, on the stream it began with: run to its end
  from here, it has the result of \<open>handshake\<close> there.
\<close>

fun same_task :: "'s stream_ops \<Rightarrow> ('s, 'tok, 'up) task \<Rightarrow> ('s, 'tok, 'up) phase \<Rightarrow> bool" where
  "same_task io (Talking t s peer) p \<longleftrightarrow>
     (\<exists>s0. p = Negotiating s0 peer \<and> talk_run io t s = handshake io s0) \<and> (\<forall>r. t \<noteq> Outcome r)"
| "same_task io (Beyond q) p \<longleftrightarrow> p = q \<and> (\<forall>s peer. q \<noteq> Negotiating s peer)"

definition same_tasks :: "'s stream_ops \<Rightarrow> ('s, 'tok, 'up) task list \<Rightarrow> ('s, 'tok, 'up) phase list \<Rightarrow> bool" where
  "same_tasks io = list_all2 (same_task io)"

lemma same_tasks_nth: "same_tasks io ts us \<Longrightarrow> i < length ts \<Longrightarrow> i < length us \<and> same_task io (ts ! i) (us ! i)"
  by (auto simp: same_tasks_def list_all2_conv_all_nth)

lemma same_tasks_update: "same_tasks io ts us \<Longrightarrow> same_task io p q \<Longrightarrow> same_tasks io (ts[i := p]) (us[i := q])"
  by (simp add: same_tasks_def list_all2_update_cong)

lemma talk_handshake_awaits: "talk_handshake \<noteq> Outcome r"
  by (simp add: talk_handshake_def talk_method_def talk_read_def talk_context_def)

text \<open>The negotiation goes on: its task stays where it is, or leaves as that of the system does.\<close>

lemma resume_simulates:
  assumes "same_tasks io ts us" and "i < length ts" and "us ! i = Negotiating s0 peer"
    and "talk_run io t s' = handshake io s0" and "resume fresh peer t s' w = (p, w')"
  shows "\<exists>us'. (sys_step io fresh answers)\<^sup>*\<^sup>* (w, us) (w', us') \<and> same_tasks io (ts[i := p]) us'"
proof -
  have i: "i < length us" using same_tasks_nth [OF assms(1,2)] by blast
  show ?thesis
  proof (cases t)
    case (Outcome r)
    then have h: "handshake io s0 = (r, s')" using assms(4) by simp
    show ?thesis
    proof (cases r)
      case (Inl e)
      with Outcome assms(5) have "p = Beyond (Refused s')" "w' = w" by simp_all
      with sys_step.refused [OF i assms(3) h [unfolded Inl], of fresh answers w] same_tasks_update [OF assms(1)]
      show ?thesis by (intro exI [of _ "us[i := Refused s']"]) auto
    next
      case (Inr x)
      obtain host port u where x: "x = (host, port, u)" by (cases x)
      obtain a tk w1 where b: "begin_connect fresh peer host port u w = ((a, tk), w1)" by (metis prod.collapse)
      with Outcome Inr x assms(5) have p: "p = Beyond (Connecting s' (Ticket a (host, port) u tk))" "w' = w1" by simp_all
      show ?thesis
        using sys_step.requested [OF i assms(3) h [unfolded Inr x] b, of answers] same_tasks_update [OF assms(1)]
        by (intro exI [of _ "us[i := Connecting s' (Ticket a (host, port) u tk)]"]) (auto simp: p)
    qed
  next
    case (AwaitRead n f)
    with assms(5) have p: "p = Talking t s' peer" "w' = w" by simp_all
    with assms(4) AwaitRead have "same_task io p (Negotiating s0 peer)" by auto
    with same_tasks_update [OF assms(1) this, of i] assms(3) p show ?thesis by (metis list_update_id rtranclp.rtrancl_refl)
  next
    case (AwaitWrite b f)
    with assms(5) have p: "p = Talking t s' peer" "w' = w" by simp_all
    with assms(4) AwaitWrite have "same_task io p (Negotiating s0 peer)" by auto
    with same_tasks_update [OF assms(1) this, of i] assms(3) p show ?thesis by (metis list_update_id rtranclp.rtrancl_refl)
  qed
qed

lemma step_simulates:
  assumes "await_step io fresh answers ready l c c'" and "same_tasks io (snd c) us"
  shows "\<exists>us'. (sys_step io fresh answers)\<^sup>*\<^sup>* (fst c, us) (fst c', us') \<and> same_tasks io (snd c') us'"
  using assms
proof (induction rule: await_step.induct)
  case (waited w ts n)
  then show ?case by (intro exI [of _ us]) (auto intro: sys_step.tick)
next
  case (came w ts s peer)
  have "same_task io (Talking talk_handshake s peer) (Negotiating s peer)"
    using talk_handshake_awaits by (simp add: run_handshake)
  with came have "same_tasks io (ts @ [Talking talk_handshake s peer]) (us @ [Negotiating s peer])"
    by (simp add: same_tasks_def list_all2_appendI)
  then show ?case by (auto intro: sys_step.accepted)
next
  case (read i ts n f s peer w x s' p w')
  then have "same_task io (Talking (AwaitRead n f) s peer) (us ! i)" using same_tasks_nth by fastforce
  with read.hyps(4) obtain s0 where "us ! i = Negotiating s0 peer" "talk_run io (f x) s' = handshake io s0" by auto
  with resume_simulates [OF _ read.hyps(1) this read.hyps(5)] read.prems show ?case by simp
next
  case (wrote i ts b g s peer w y s' p w')
  then have "same_task io (Talking (AwaitWrite b g) s peer) (us ! i)" using same_tasks_nth by fastforce
  with wrote.hyps(4) obtain s0 where "us ! i = Negotiating s0 peer" "talk_run io (g y) s' = handshake io s0" by auto
  with resume_simulates [OF _ wrote.hyps(1) this wrote.hyps(5)] wrote.prems show ?case by simp
next
  case (arti_failed i ts s k w e)
  then have "i < length us" "us ! i = Connecting s k" using same_tasks_nth by fastforce+
  with arti_failed show ?case
    by (auto intro!: exI [of _ "us[i := FailReply s k e]"] same_tasks_update intro: sys_step.tor_error)
next
  case (failure_told i ts s k e w z s')
  then have "i < length us" "us ! i = FailReply s k e" using same_tasks_nth by fastforce+
  with failure_told show ?case
    by (auto intro!: exI [of _ "us[i := Ended s' k FailedClosed]"] same_tasks_update intro: sys_step.fail_reply)
next
  case (arti_opened i ts s k w up)
  then have "i < length us" "us ! i = Connecting s k" using same_tasks_nth by fastforce+
  with arti_opened show ?case
    by (auto intro!: exI [of _ "us[i := OkReply s k up]"] same_tasks_update intro: sys_step.tor_ok)
next
  case (success_lost i ts s k up w e s')
  then have "i < length us" "us ! i = OkReply s k up" using same_tasks_nth by fastforce+
  with success_lost show ?case
    by (auto intro!: exI [of _ "us[i := Ended s' k ReplyLost]"] same_tasks_update intro: sys_step.ok_reply_lost)
next
  case (success_told i ts s k up w s')
  then have "i < length us" "us ! i = OkReply s k up" using same_tasks_nth by fastforce+
  with success_told show ?case
    by (auto intro!: exI [of _ "us[i := Splicing s' k up]"] same_tasks_update intro: sys_step.ok_reply)
next
  case (copies i ts s k up op w bytes s' w')
  then have "i < length us" "us ! i = Splicing s k up" using same_tasks_nth by fastforce+
  with copies show ?case
    by (auto intro!: exI [of _ "us[i := Splicing s' k up]"] same_tasks_update intro: sys_step.copied)
next
  case (copy_over i ts s k up w)
  then have "i < length us" "us ! i = Splicing s k up" using same_tasks_nth by fastforce+
  with copy_over show ?case
    by (auto intro!: exI [of _ "us[i := Ended s k Spliced]"] same_tasks_update intro: sys_step.finished)
qed

lemma reach_simulates:
  "await_reach io fresh answers ready w0 c \<Longrightarrow>
   \<exists>us. reachable io fresh answers w0 (fst c, us) \<and> same_tasks io (snd c) us"
proof (induction rule: await_reach.induct)
  case nobody
  have "same_tasks io [] []" by (simp add: same_tasks_def)
  then show ?case using reachable.start [of io fresh answers w0] by auto
next
  case (moved c l c')
  then obtain us where "reachable io fresh answers w0 (fst c, us)" "same_tasks io (snd c) us" by blast
  with step_simulates [OF moved(2)] show ?case by (meson reachable_steps)
qed

text \<open>
  C5. The system of connections is an abstraction of the one at the grain of single awaits,
  whatever may be ready when: for every reachable state of the latter, with negotiations
  suspended at any of their reads and writes, there is a reachable state of the former with the
  same counters, rows, tokens and clock, with the same tasks past their negotiation, and with the
  others in a negotiation that has the result of the rest of theirs.
\<close>

theorem awaits_refine_system:
  assumes "await_reach io fresh answers ready w0 (w, ts)"
  shows "\<exists>us. reachable io fresh answers w0 (w, us) \<and> length us = length ts \<and>
    (\<forall>i < length ts. case ts ! i of
        Beyond q \<Rightarrow> us ! i = q
      | Talking t s peer \<Rightarrow> \<exists>s0. us ! i = Negotiating s0 peer \<and> handshake io s0 = talk_run io t s)"
proof -
  obtain us where us: "reachable io fresh answers w0 (w, us)" "same_tasks io ts us"
    using reach_simulates [OF assms] by auto
  have "case ts ! i of Beyond q \<Rightarrow> us ! i = q
      | Talking t s peer \<Rightarrow> \<exists>s0. us ! i = Negotiating s0 peer \<and> handshake io s0 = talk_run io t s"
    if "i < length ts" for i
    using same_tasks_nth [OF us(2) that] by (auto split: task.split)
  moreover have "length us = length ts" using us(2) by (simp add: same_tasks_def list_all2_lengthD)
  ultimately show ?thesis using us(1) by blast
qed

section \<open>How many segments\<close>

text \<open>A task that has at most so many segments left, whatever its awaits return.\<close>

fun has_left :: "('s, 'tok, 'up) task \<Rightarrow> nat \<Rightarrow> bool" where
  "has_left (Talking t s peer) n \<longleftrightarrow> within t n (\<lambda>r m. case r of Inl e \<Rightarrow> True | Inr x \<Rightarrow> 3 \<le> m)"
| "has_left (Beyond (Negotiating s peer)) n \<longleftrightarrow> False"
| "has_left (Beyond (Connecting s k)) n \<longleftrightarrow> 3 \<le> n"
| "has_left (Beyond (OkReply s k up)) n \<longleftrightarrow> 2 \<le> n"
| "has_left (Beyond (FailReply s k e)) n \<longleftrightarrow> 1 \<le> n"
| "has_left (Beyond (Splicing s k up)) n \<longleftrightarrow> 1 \<le> n"
| "has_left (Beyond (Refused s)) n \<longleftrightarrow> True"
| "has_left (Beyond (Ended s k oc)) n \<longleftrightarrow> True"

lemma resume_left:
  assumes "within t n (\<lambda>r m. case r of Inl e \<Rightarrow> True | Inr x \<Rightarrow> 3 \<le> m)" and "resume fresh peer t s w = (p, w')"
  shows "has_left p n"
  using assms
proof (cases t)
  case (Outcome r)
  then show ?thesis using assms by (cases r) (auto split: prod.splits)
qed auto

lemma step_left:
  assumes "await_step io fresh answers ready l c c'" and "i < length (snd c)" and "has_left (snd c ! i) n"
  shows "i < length (snd c') \<and> (if l = Segment i then 0 < n \<and> has_left (snd c' ! i) (n - 1) else has_left (snd c' ! i) n)
    \<and> (l \<noteq> Segment i \<longrightarrow> awaits (snd c' ! i) = awaits (snd c ! i))"
  using assms
proof (induction rule: await_step.induct)
  case (read j ts m f s peer w x s' p w')
  then show ?case by (cases "j = i") (auto intro: resume_left)
next
  case (wrote j ts b g s peer w y s' p w')
  then show ?case by (cases "j = i") (auto intro: resume_left)
next
  case (came w ts s peer)
  then show ?case by (simp add: nth_append)
qed (auto simp: nth_list_update)

lemma step_index: "await_step io fresh answers ready l c c' \<Longrightarrow> l = Segment i \<Longrightarrow> i < length (snd c)"
  by (induction rule: await_step.induct) auto

lemma step_new:
  "await_step io fresh answers ready l c c' \<Longrightarrow> length (snd c) \<le> i \<Longrightarrow> i < length (snd c') \<Longrightarrow>
   \<exists>s peer. snd c' ! i = Talking talk_handshake s peer"
  by (induction rule: await_step.induct) (auto simp: nth_append split: if_splits)

lemma run_left:
  assumes "\<forall>n < N. await_step io fresh answers ready (l n) (\<sigma> n) (\<sigma> (Suc n))" and "snd (\<sigma> 0) = []"
  shows "if i < length (snd (\<sigma> N)) then \<exists>b. has_left (snd (\<sigma> N) ! i) b \<and> card {n. n < N \<and> l n = Segment i} + b \<le> 16
    else {n. n < N \<and> l n = Segment i} = {}"
  using assms(1)
proof (induction N)
  case 0
  then show ?case by (simp add: assms(2))
next
  case (Suc N)
  have s: "await_step io fresh answers ready (l N) (\<sigma> N) (\<sigma> (Suc N))" using Suc.prems by simp
  have set: "{n. n < Suc N \<and> l n = Segment i} = (if l N = Segment i then insert N {n. n < N \<and> l n = Segment i}
      else {n. n < N \<and> l n = Segment i})"
    by (auto simp: less_Suc_eq)
  show ?case
  proof (cases "i < length (snd (\<sigma> N))")
    case True
    with Suc obtain b where b: "has_left (snd (\<sigma> N) ! i) b" "card {n. n < N \<and> l n = Segment i} + b \<le> 16" by auto
    from step_left [OF s True b(1)] b(2) show ?thesis
      by (cases "l N = Segment i") (auto simp: set intro: exI [of _ "b - 1"] exI [of _ b])
  next
    case False
    then have empty: "{n. n < Suc N \<and> l n = Segment i} = {}" using Suc step_index [OF s] set by auto
    show ?thesis
    proof (cases "i < length (snd (\<sigma> (Suc N)))")
      case True
      with step_new [OF s, of i] False obtain s peer where "snd (\<sigma> (Suc N)) ! i = Talking talk_handshake s peer" by auto
      with True within_handshake show ?thesis unfolding empty by (auto intro!: exI [of _ 16])
    qed (use empty in simp)
  qed
qed

text \<open>
  C11. A connection takes at most sixteen segments, whatever its client, arti and the other
  connections do: a negotiation that succeeds has at most thirteen awaits, and arti, the reply and
  the end of the copy are one each. Every other step, a call of its copy included, leaves its
  await as it is.
\<close>

theorem connection_segments:
  assumes "\<forall>n < N. await_step io fresh answers ready (l n) (\<sigma> n) (\<sigma> (Suc n))" and "snd (\<sigma> 0) = []"
  shows "card {n. n < N \<and> l n = Segment i} \<le> 16 \<and>
    (\<forall>n < N. i < length (snd (\<sigma> n)) \<longrightarrow> l n \<noteq> Segment i \<longrightarrow> awaits (snd (\<sigma> (Suc n)) ! i) = awaits (snd (\<sigma> n) ! i))"
proof
  show "card {n. n < N \<and> l n = Segment i} \<le> 16"
    using run_left [OF assms, of i] by (auto split: if_splits simp del: Collect_empty_eq)
  show "\<forall>n < N. i < length (snd (\<sigma> n)) \<longrightarrow> l n \<noteq> Segment i \<longrightarrow> awaits (snd (\<sigma> (Suc n)) ! i) = awaits (snd (\<sigma> n) ! i)"
  proof (intro allI impI)
    fix n
    assume n: "n < N" "i < length (snd (\<sigma> n))" "l n \<noteq> Segment i"
    have "\<forall>m < n. await_step io fresh answers ready (l m) (\<sigma> m) (\<sigma> (Suc m))" using assms(1) n(1) by simp
    from run_left [OF this assms(2), of i] n(2) obtain b where "has_left (snd (\<sigma> n) ! i) b" by auto
    from step_left [OF _ n(2) this] assms(1) n show "awaits (snd (\<sigma> (Suc n)) ! i) = awaits (snd (\<sigma> n) ! i)" by blast
  qed
qed

section \<open>What a connection waits for\<close>

text \<open>arti's answer to a request, when there is one, is a stream or an error.\<close>

definition answering :: "('client \<Rightarrow> rstr \<times> u16 \<Rightarrow> 'tok \<Rightarrow> error + 'up \<Rightarrow> bool) \<Rightarrow> bool" where
  "answering answers \<longleftrightarrow> (\<forall>c x t. \<exists>r. answers c x t r)"

text \<open>A task can go on exactly if its await can return: it never waits for anything else.\<close>

lemma can_go_on:
  assumes "answering answers" and i: "i < length ts" and "awaits (ts ! i) = Some aw"
  shows "(\<exists>c'. await_step io fresh answers ready (Segment i) (w, ts) c') \<longleftrightarrow> ready (clock w) i aw"
proof
  assume "\<exists>c'. await_step io fresh answers ready (Segment i) (w, ts) c'"
  then obtain w' ts' where "await_step io fresh answers ready (Segment i) (w, ts) (w', ts')" by auto
  then show "ready (clock w) i aw" using assms(3) by cases auto
next
  assume r: "ready (clock w) i aw"
  have go: "\<exists>c'. await_step io fresh answers ready (Segment i) (w, ts) c'"
    if "await_step io fresh answers ready (Segment i) (w, ts) c" for c using that by blast
  show "\<exists>c'. await_step io fresh answers ready (Segment i) (w, ts) c'"
  proof (cases "ts ! i" rule: awaits.cases)
    case (1 n f s peer)
    show ?thesis
      by (rule go [OF await_step.read [OF i 1 _ surjective_pairing surjective_pairing]]) (use r assms(3) 1 in simp)
  next
    case (2 b g s peer)
    show ?thesis
      by (rule go [OF await_step.wrote [OF i 2 _ surjective_pairing surjective_pairing]]) (use r assms(3) 2 in simp)
  next
    case (6 s k)
    obtain res where res: "answers (client (tor w)) (asked k) (tok k) res" using assms(1) unfolding answering_def by blast
    show ?thesis
    proof (cases res)
      case (Inl e)
      with res r assms(3) 6 show ?thesis using go [OF await_step.arti_failed [OF i 6]] by simp
    next
      case (Inr up)
      with res r assms(3) 6 show ?thesis using go [OF await_step.arti_opened [OF i 6]] by simp
    qed
  next
    case (7 s k e)
    obtain z s' where "send_reply io REP_GENERAL_FAILURE s = (z, s')" by fastforce
    with r assms(3) 7 show ?thesis using go [OF await_step.failure_told [OF i 7]] by simp
  next
    case (8 s k up)
    obtain y s' where z: "send_reply io REP_SUCCESS s = (y, s')" by fastforce
    show ?thesis
    proof (cases y)
      case (Inl e)
      with z r assms(3) 8 show ?thesis using go [OF await_step.success_lost [OF i 8]] by simp
    next
      case (Inr u)
      with z r assms(3) 8 show ?thesis using go [OF await_step.success_told [OF i 8]] by simp
    qed
  next
    case (9 s k up)
    with r assms(3) show ?thesis using go [OF await_step.copy_over [OF i 9]] by simp
  qed (use assms(3) in simp_all)
qed

fun is_over :: "('s, 'tok, 'up) task \<Rightarrow> bool" where
  "is_over (Beyond (Refused s)) = True"
| "is_over (Beyond (Ended s k oc)) = True"
| "is_over _ = False"

text \<open>The row of a connection that is over is no longer listed.\<close>

definition unlisted :: "('tok, 'client) world \<Rightarrow> ('s, 'tok, 'up) task \<Rightarrow> bool" where
  "unlisted w p \<longleftrightarrow> (case p of Beyond (Ended s k oc) \<Rightarrow> row k \<notin> live (streams w) | _ \<Rightarrow> True)"

lemma over_row_gone:
  assumes "rows_ok (w, us)" and "i < length us" and "us ! i = Ended s k oc" and "length us \<le> 2 ^ 64"
  shows "row k \<notin> live (streams w)"
proof -
  have "tasks_with is_requested us \<le> 2 ^ 64" using tasks_with_le assms(4) by (rule le_trans)
  then have "tickets_ok (tasks_with is_requested us) (map ticket_of us)" "live (streams w) = open_rows us"
    using assms(1) by (simp_all add: rows_ok_def)
  with other_rows_fresh [OF this(1) assms(2), of k] assms(3) show ?thesis
    by (simp add: open_rows_split [OF assms(2)])
qed

lemma reach_over:
  assumes "await_reach io fresh answers ready w0 (w, ts)" and "initial fresh w0" and "i < length ts"
    and "awaits (ts ! i) = None"
  shows "is_over (ts ! i) \<and> (length ts \<le> 2 ^ 64 \<longrightarrow> unlisted w (ts ! i))"
proof -
  obtain us where us: "reachable io fresh answers w0 (w, us)" "same_tasks io ts us"
    using reach_simulates [OF assms(1)] by auto
  have i: "i < length us" "same_task io (ts ! i) (us ! i)" using same_tasks_nth [OF us(2) assms(3)] by simp_all
  have len: "length us = length ts" using us(2) by (simp add: same_tasks_def list_all2_lengthD)
  have gone: "row k \<notin> live (streams w)" if "us ! i = Ended s k oc" "length ts \<le> 2 ^ 64" for s k oc
    using over_row_gone [OF rows_reachable [OF us(1) assms(2)] i(1) that(1)] that(2) len by simp
  from assms(4) i(2) gone show ?thesis
    by (cases "ts ! i" rule: awaits.cases) (auto simp: unlisted_def)
qed

lemma segments_finite:
  assumes "\<And>n. await_step io fresh answers ready (l n) (\<sigma> n) (\<sigma> (Suc n))" and "snd (\<sigma> 0) = []"
  shows "finite {n. l n = Segment i}"
proof (rule ccontr)
  assume "infinite {n. l n = Segment i}"
  then obtain B where B: "finite B" "card B = 17" "B \<subseteq> {n. l n = Segment i}"
    using infinite_arbitrarily_large [of "{n. l n = Segment i}" 17] by blast
  let ?N = "Suc (Max B)"
  have "B \<subseteq> {n. n < ?N \<and> l n = Segment i}" using B by (auto simp: less_Suc_eq_le)
  then have "17 \<le> card {n. n < ?N \<and> l n = Segment i}" using B(2) card_mono [of "{n. n < ?N \<and> l n = Segment i}" B] by simp
  moreover have "card {n. n < ?N \<and> l n = Segment i} \<le> 16"
    using run_left [of ?N io fresh answers ready l \<sigma> i] assms by (auto split: if_splits simp del: Collect_empty_eq)
  ultimately show False by simp
qed

lemma tasks_stay: "await_step io fresh answers ready l c c' \<Longrightarrow> length (snd c) \<le> length (snd c')"
  by (induction rule: await_step.induct) auto

lemma run_reach:
  assumes "\<And>n. await_step io fresh answers ready (l n) (\<sigma> n) (\<sigma> (Suc n))" and "snd (\<sigma> 0) = []"
  shows "await_reach io fresh answers ready (fst (\<sigma> 0)) (\<sigma> n)"
proof (induction n)
  case 0
  show ?case using await_reach.nobody [of io fresh answers ready "fst (\<sigma> 0)"] assms(2) by (metis prod.collapse)
next
  case (Suc n)
  then show ?case by (rule await_reach.moved) (rule assms(1))
qed

lemma run_still:
  assumes "\<And>n. await_step io fresh answers ready (l n) (\<sigma> n) (\<sigma> (Suc n))" and "snd (\<sigma> 0) = []"
    and "i < length (snd (\<sigma> n))" and "\<And>k. n \<le> k \<Longrightarrow> l k \<noteq> Segment i"
  shows "n \<le> k \<Longrightarrow> i < length (snd (\<sigma> k)) \<and> awaits (snd (\<sigma> k) ! i) = awaits (snd (\<sigma> n) ! i)"
proof (induction k rule: dec_induct)
  case (step k)
  then have i: "i < length (snd (\<sigma> k))" by simp
  with run_left [of k io fresh answers ready l \<sigma> i] assms(1,2) obtain b where "has_left (snd (\<sigma> k) ! i) b" by auto
  from step_left [OF assms(1) i this] step assms(4) show ?case by simp
qed (use assms(3) in simp)

text \<open>
  C6. What becomes of a connection. Take any infinite run in which the runtime does not pass over
  a task for ever that could go on all the time, and an arti whose answers are streams or errors.
  Then each connection is over from some point on, with its row no longer listed; or from some
  point on it stays at one and the same await, which is one that cannot return again and again:
  its client is silent or does not take its reply, arti does not answer, or the copy goes on. The
  program has no timeouts, so both happen; but no connection is ever held up by another one.
\<close>

theorem connection_waits:
  assumes "\<And>n. await_step io fresh answers ready (l n) (\<sigma> n) (\<sigma> (Suc n))" and "initial fresh (fst (\<sigma> 0))"
    and "snd (\<sigma> 0) = []" and "answering answers"
    and "\<And>n. (\<forall>m \<ge> n. \<exists>c'. await_step io fresh answers ready (Segment i) (\<sigma> m) c') \<Longrightarrow> (\<exists>m \<ge> n. l m = Segment i)"
    and "i < length (snd (\<sigma> n))"
  shows "\<exists>m \<ge> n.
    (\<forall>k \<ge> m. is_over (snd (\<sigma> k) ! i) \<and> (length (snd (\<sigma> k)) \<le> 2 ^ 64 \<longrightarrow> unlisted (fst (\<sigma> k)) (snd (\<sigma> k) ! i)))
    \<or> (\<exists>x. \<forall>k \<ge> m. awaits (snd (\<sigma> k) ! i) = Some x \<and> (\<exists>k' \<ge> k. \<not> ready (clock (fst (\<sigma> k'))) i x))"
proof -
  obtain b where "\<forall>k. l k = Segment i \<longrightarrow> k < b"
    using finite_nat_set_iff_bounded [of "{n. l n = Segment i}"] segments_finite [OF assms(1,3)] by blast
  then have no: "l k \<noteq> Segment i" if "max n b \<le> k" for k using that by (meson leD max.boundedE)
  let ?m = "max n b"
  have len: "length (snd (\<sigma> n)) \<le> length (snd (\<sigma> k))" if "n \<le> k" for k
    using that by (induction k rule: dec_induct) (auto intro: le_trans tasks_stay [OF assms(1)])
  have i: "i < length (snd (\<sigma> ?m))" using len [of ?m] assms(6) by simp
  have still: "i < length (snd (\<sigma> k)) \<and> awaits (snd (\<sigma> k) ! i) = awaits (snd (\<sigma> ?m) ! i)" if "?m \<le> k" for k
    using run_still [OF assms(1,3) i no that] by simp
  show ?thesis
  proof (cases "awaits (snd (\<sigma> ?m) ! i)")
    case None
    have "is_over (snd (\<sigma> k) ! i) \<and> (length (snd (\<sigma> k)) \<le> 2 ^ 64 \<longrightarrow> unlisted (fst (\<sigma> k)) (snd (\<sigma> k) ! i))" if "?m \<le> k" for k
      using reach_over [of io fresh answers ready "fst (\<sigma> 0)" "fst (\<sigma> k)" "snd (\<sigma> k)" i] run_reach [OF assms(1,3), of k]
        assms(2) still [OF that] None by simp
    then show ?thesis by (intro exI [of _ ?m]) simp
  next
    case (Some x)
    have "\<exists>k' \<ge> k. \<not> ready (clock (fst (\<sigma> k'))) i x" if "?m \<le> k" for k
    proof (rule ccontr)
      assume r: "\<not> (\<exists>k' \<ge> k. \<not> ready (clock (fst (\<sigma> k'))) i x)"
      have "\<exists>c'. await_step io fresh answers ready (Segment i) (\<sigma> m) c'" if "k \<le> m" for m
        using can_go_on [OF assms(4), of i "snd (\<sigma> m)" x io fresh ready "fst (\<sigma> m)"] still [of m] Some r that \<open>?m \<le> k\<close>
        by simp
      then obtain m where "k \<le> m" "l m = Segment i" using assms(5) by blast
      with no [of m] that show False by simp
    qed
    with still Some have "\<forall>k \<ge> ?m. awaits (snd (\<sigma> k) ! i) = Some x \<and> (\<exists>k' \<ge> k. \<not> ready (clock (fst (\<sigma> k'))) i x)" by simp
    moreover have "n \<le> ?m" by simp
    ultimately show ?thesis by blast
  qed
qed

section \<open>Examples\<close>

lemma talk_handshake_read: obtains f where "talk_handshake = AwaitRead 2 f"
    and "\<And>e. \<exists>e'. f (Inl e) = Outcome (Inl e')" and "\<And>b. \<exists>g. f (Inr [SOCKS5, b]) = AwaitRead (unat b) g"
  by (simp add: talk_handshake_def talk_method_def talk_read_def talk_context_def talk_throw_def io_outcome_def)

text \<open>A client that has sent its greeting, with one authentication method to be read next.\<close>

theorem awaits_refine_system_witness:
  "\<exists>w t s s0. await_reach conn_ops id any_answer (\<lambda>now i x. True) (example_world Shared) (w, [Talking t s default_peer])
     \<and> awaits (Talking t s default_peer :: (conn, nat, unit) task) = Some (Reading 1)
     \<and> reachable conn_ops id any_answer (example_world Shared) (w, [Negotiating s0 default_peer])
     \<and> handshake conn_ops s0 = talk_run conn_ops t s"
proof -
  let ?reach = "await_reach conn_ops id any_answer (\<lambda>now i x. True) (example_world Shared)"
  let ?c = "example_conn [example_v4_request]"
  obtain f g where f: "talk_handshake = AwaitRead 2 f" "f (Inr [SOCKS5, 1]) = AwaitRead (unat (1 :: u8)) g"
    by (rule talk_handshake_read) metis
  have one: "?reach (example_world Shared, [] @ [Talking talk_handshake ?c default_peer])"
    by (rule await_reach.moved [OF await_reach.nobody await_step.came])
  obtain s where r: "read_exact conn_ops 2 ?c = (Inr [SOCKS5, 1], s)"
    by (simp add: conn_defs example_conn_def example_v4_request_def take_exact_pos SOCKS5_def)
  have "resume id default_peer (f (Inr [SOCKS5, 1])) s (example_world Shared)
      = (Talking (AwaitRead 1 g) s default_peer :: (conn, nat, unit) task, example_world Shared)"
    by (simp add: f)
  from await_reach.moved [OF one await_step.read [where i = 0 and f = f and x = "Inr [SOCKS5, 1]", OF _ _ _ r this]] f(1)
  have two: "?reach (example_world Shared, [Talking (AwaitRead 1 g) s default_peer])" by simp
  from awaits_refine_system [OF this] obtain us where
    "reachable conn_ops id any_answer (example_world Shared) (example_world Shared, us)" "length us = 1"
    "\<exists>s0. us ! 0 = Negotiating s0 default_peer \<and> handshake conn_ops s0 = talk_run conn_ops (AwaitRead 1 g) s"
    by auto
  moreover from this obtain p where "us = [p]" by (auto simp: length_Suc_conv)
  ultimately show ?thesis using two by fastforce
qed

text \<open>A run that accepts a client, which is gone at once, and then waits.\<close>

definition gone_run :: "nat \<Rightarrow> (nat, unit) world \<times> (conn, nat, unit) task list" where
  "gone_run n = (example_world Shared,
     if n = 0 then [] else if n = 1 then [Talking talk_handshake (example_conn []) default_peer]
     else [Beyond (Refused (snd (read_exact conn_ops 2 (example_conn []))))])"

definition gone_label :: "nat \<Rightarrow> step_kind" where
  "gone_label n = (if n = 1 then Segment 0 else Passing)"

lemma passing: "await_step io fresh answers ready Passing (w, ts) (w, ts)"
  using await_step.waited [of io fresh answers ready w ts 0] by simp

lemma gone_steps: "await_step conn_ops id any_answer (\<lambda>now i x. True) (gone_label n) (gone_run n) (gone_run (Suc n))"
proof -
  let ?c = "example_conn []"
  obtain f where f: "talk_handshake = AwaitRead 2 f" "\<And>e. \<exists>e'. f (Inl e) = Outcome (Inl e')"
    by (rule talk_handshake_read) metis
  obtain e s where r: "read_exact conn_ops 2 ?c = (Inl e, s)"
    by (simp add: conn_defs example_conn_def numeral_2_eq_2)
  from f(2) have "resume id default_peer (f (Inl e)) s (example_world Shared)
      = (Beyond (Refused s) :: (conn, nat, unit) task, example_world Shared)"
    by (metis resume.simps(1))
  note step = await_step.read [where i = 0 and ts = "[Talking talk_handshake ?c default_peer]" and answers = any_answer
      and ready = "\<lambda>now i x. True" and f = f and x = "Inl e", OF _ _ _ r this]
  consider "n = 0" | "n = 1" | "2 \<le> n" by linarith
  then show ?thesis
  proof cases
    case 1
    then show ?thesis
      using await_step.came [of conn_ops id any_answer "\<lambda>now i x. True" "example_world Shared" "[]" ?c default_peer]
      by (simp add: gone_run_def gone_label_def)
  next
    case 2
    then show ?thesis using step f(1) r by (simp add: gone_run_def gone_label_def)
  next
    case 3
    then show ?thesis using passing by (simp add: gone_run_def gone_label_def)
  qed
qed

theorem connection_segments_witness:
  "card {n. n < 10 \<and> gone_label n = Segment 0} \<le> 16 \<and> awaits (snd (gone_run 3) ! 0) = None"
proof -
  have "\<forall>n < 10. await_step conn_ops id any_answer (\<lambda>now i x. True) (gone_label n) (gone_run n) (gone_run (Suc n))"
    using gone_steps by blast
  moreover have "snd (gone_run 0) = []" by (simp add: gone_run_def)
  ultimately show ?thesis
    using connection_segments [of 10 conn_ops id any_answer "\<lambda>now i x. True" gone_label gone_run 0]
    by (auto simp: gone_run_def)
qed

text \<open>A run that accepts a client, which is silent for ever.\<close>

definition silent_run :: "nat \<Rightarrow> (nat, unit) world \<times> (conn, nat, unit) task list" where
  "silent_run n = (example_world Shared, if n = 0 then [] else [Talking talk_handshake (example_conn []) default_peer])"

theorem connection_waits_witness:
  "\<exists>m x. \<forall>k \<ge> m. awaits (snd (silent_run k) ! 0) = Some x"
proof -
  let ?step = "await_step conn_ops id any_answer (\<lambda>now i x. False)"
  have run: "?step Passing (silent_run n) (silent_run (Suc n))" for n
  proof (cases "n = 0")
    case True
    then show ?thesis
      using await_step.came [of conn_ops id any_answer "\<lambda>now i x. False" "example_world Shared" "[]" "example_conn []" default_peer]
      by (simp add: silent_run_def)
  next
    case False
    then show ?thesis using passing by (simp add: silent_run_def)
  qed
  have "\<not> ?step (Segment 0) c c'" for c c' :: "(nat, unit) world \<times> (conn, nat, unit) task list"
    by (auto elim: await_step.cases)
  then have fair: "\<And>n. (\<forall>m \<ge> n. \<exists>c'. ?step (Segment 0) (silent_run m) c') \<Longrightarrow> (\<exists>m \<ge> n. Passing = Segment 0)" by blast
  have start: "initial id (fst (silent_run 0))" "snd (silent_run 0) = []" "0 < length (snd (silent_run 1))"
    using example_initial by (simp_all add: silent_run_def)
  have a: "answering any_answer" by (auto simp: answering_def any_answer_def)
  obtain f where "talk_handshake = AwaitRead 2 f" by (rule talk_handshake_read)
  then have "\<not> is_over (snd (silent_run k) ! 0)" if "1 \<le> k" for k using that by (simp add: silent_run_def)
  with connection_waits [where l = "\<lambda>n. Passing" and \<sigma> = silent_run, OF run start(1,2) a fair start(3)]
  show ?thesis by fastforce
qed

end
