(* ===== verification/Proxy_Isolation.thy ===== *)
theory Proxy_Isolation
  imports Proxy_Guarantees
begin

text \<open>
  The map from usernames to tokens over the life of the system: what is in it, and how it
  grows.
\<close>

definition users_of :: "'tok ticket option list \<Rightarrow> rstr set" where
  "users_of tks = {u. \<exists>k. Some k \<in> set tks \<and> user k = Some u}"

lemma users_of_append: "users_of (tks @ [None]) = users_of tks"
  by (simp add: users_of_def)

lemma users_of_open:
  assumes "i < length tks" and "tks ! i = None"
  shows "users_of (tks[i := Some k]) = users_of tks \<union> set_option (user k)"
proof -
  have "Some x \<in> set (tks[i := Some k]) \<longleftrightarrow> x = k \<or> Some x \<in> set tks" for x
    using assms by (auto simp: in_set_conv_nth nth_list_update) (metis option.distinct(1))
  then show ?thesis by (auto simp: users_of_def)
qed

lemma users_of_finite: "finite (users_of tks)" and card_users_of: "card (users_of tks) \<le> length (filter (\<lambda>x. x \<noteq> None) tks)"
proof -
  have "\<exists>us. users_of tks = set us \<and> length us \<le> length (filter (\<lambda>x. x \<noteq> None) tks)"
  proof (induction tks)
    case Nil
    show ?case by (simp add: users_of_def)
  next
    case (Cons x tks)
    then obtain us where us: "users_of tks = set us" "length us \<le> length (filter (\<lambda>x. x \<noteq> None) tks)" by blast
    have c: "users_of (x # tks) = users_of tks \<union> (case x of None \<Rightarrow> {} | Some k \<Rightarrow> set_option (user k))"
      by (auto simp: users_of_def split: option.splits)
    show ?case
    proof (cases "\<exists>k u. x = Some k \<and> user k = Some u")
      case True
      then obtain k u where "x = Some k" "user k = Some u" by blast
      with us c show ?thesis by (intro exI [of _ "u # us"]) auto
    next
      case False
      with us c show ?thesis by (intro exI [of _ us]) (auto split: option.splits)
    qed
  qed
  then obtain us where us: "users_of tks = set us" "length us \<le> length (filter (\<lambda>x. x \<noteq> None) tks)" by blast
  then show "finite (users_of tks)" by simp
  show "card (users_of tks) \<le> length (filter (\<lambda>x. x \<noteq> None) tks)"
    using us card_length [of us] by simp
qed

definition map_ok :: "isolation_policy \<Rightarrow> ('tok, 'client) world \<times> ('s, 'tok, 'up) phase list \<Rightarrow> bool" where
  "map_ok p c \<longleftrightarrow> (case c of (w, ts) \<Rightarrow> policy (tor w) = p \<and> hm_wf (per_upstream (tor w)) \<and>
     dom (hm_get (per_upstream (tor w))) = (if p = PerUpstream then users_of (map ticket_of ts) else {}))"

lemma isolation_token_dom:
  assumes "hm_wf (per_upstream m)"
  shows "hm_wf (per_upstream (snd (isolation_token fresh u m))) \<and>
    dom (hm_get (per_upstream (snd (isolation_token fresh u m))))
      = dom (hm_get (per_upstream m)) \<union> (if policy m = PerUpstream then set_option u else {})"
  using assms
  by (auto simp: isolation_token_def Let_def hm.map_laws domIff split: isolation_policy.split option.splits if_splits)

lemma map_ok_step: "sys_step io fresh answers c c' \<Longrightarrow> map_ok p c \<Longrightarrow> map_ok p c'"
proof (induction rule: sys_step.induct)
  case (accepted w ts s peer)
  then show ?case by (simp add: map_ok_def users_of_append)
next
  case (requested i ts s peer host port u s' w a t w')
  then show ?case
    using begin_connect_world(3) [OF requested(4)] isolation_token_dom [of "tor w" fresh u]
      users_of_open [of i "map ticket_of ts" "Ticket a (host, port) u t"]
    by (auto simp: map_ok_def map_update)
next
  case (copied i ts s k up x w bytes s' w')
  obtain n m where "w' = add_traffic (row k) n m w" using metered_step_shared [OF copied(3)] by blast
  with copied show ?case by (simp add: map_ok_def tickets_kept)
qed (simp_all add: map_ok_def tickets_kept)

lemma map_ok_reachable:
  assumes "initial fresh w0" and "per_upstream (tor w0) = hm_new"
  shows "reachable io fresh answers w0 c \<Longrightarrow> map_ok (policy (tor w0)) c"
proof (induction rule: reachable.induct)
  case start
  show ?case using assms by (simp add: map_ok_def users_of_def hm.map_laws)
qed (blast intro: map_ok_step)

text \<open>
  C14. The map of tokens is exactly as large as it must be, and never gets smaller: under
  \<open>PerUpstream\<close> it has one entry for each username that ever made a request, ended
  connections included, and none for anything else; under the other policies it is empty.
\<close>

theorem isolation_map_exact:
  assumes "reachable io fresh answers w0 (w, ts)" and "initial fresh w0" and "per_upstream (tor w0) = hm_new"
  shows "dom (hm_get (per_upstream (tor w)))
      = (if policy (tor w0) = PerUpstream
         then {u. \<exists>i < length ts. \<exists>k. ticket_of (ts ! i) = Some k \<and> user k = Some u} else {})
    \<and> hm_len (per_upstream (tor w)) \<le> tasks_with is_requested ts"
proof -
  have ok: "hm_wf (per_upstream (tor w))" "dom (hm_get (per_upstream (tor w)))
      = (if policy (tor w0) = PerUpstream then users_of (map ticket_of ts) else {})"
    using map_ok_reachable [OF assms(2,3,1)] by (simp_all add: map_ok_def)
  have "users_of (map ticket_of ts) = {u. \<exists>i < length ts. \<exists>k. ticket_of (ts ! i) = Some k \<and> user k = Some u}"
  proof -
    have "Some k \<in> set (map ticket_of ts) \<longleftrightarrow> (\<exists>i < length ts. ticket_of (ts ! i) = Some k)" for k
      unfolding in_set_conv_nth by auto
    then show ?thesis unfolding users_of_def by blast
  qed
  moreover have "length (filter (\<lambda>x. x \<noteq> None) (map ticket_of ts)) = tasks_with is_requested ts"
    by (simp add: tasks_with_def is_requested_def [abs_def] filter_map comp_def)
  moreover have "hm_len (per_upstream (tor w)) = card (dom (hm_get (per_upstream (tor w))))"
    using ok(1) by (rule hm.len_card)
  ultimately show ?thesis using ok(2) card_users_of [of "map ticket_of ts"] by auto
qed

theorem isolation_map_exact_witness:
  "\<exists>w s1 s2 k l. reachable conn_ops id any_answer (example_world PerUpstream)
       (w, [Connecting s1 k, Connecting s2 l]) \<and> dom (hm_get (per_upstream (tor w))) = {lit ''dns''}"
proof -
  obtain w s1 s2 k l where r: "reachable conn_ops id any_answer (example_world PerUpstream)
      (w, [Connecting s1 k, Connecting s2 l])" and u: "user k = None" "user l = Some (lit ''dns'')"
    by (rule example_state)
  have "per_upstream (tor (example_world PerUpstream)) = hm_new" "policy (tor (example_world PerUpstream)) = PerUpstream"
    by (simp_all add: example_world_def example_manager_def)
  note map = isolation_map_exact [OF r example_initial this(1), THEN conjunct1, unfolded this(2), unfolded simp_thms if_True]
  have "{v. \<exists>i < length [Connecting s1 k, Connecting s2 l].
      \<exists>k'. ticket_of ([Connecting s1 k, Connecting s2 l] ! i) = Some k' \<and> user k' = Some v} = {lit ''dns''}"
    (is "{v. ?P v} = _")
  proof -
    have "?P v \<longleftrightarrow> user k = Some v \<or> user l = Some v" for v by (simp add: Ex_less_Suc2)
    with u show ?thesis by auto
  qed
  with map have "dom (hm_get (per_upstream (tor w))) = {lit ''dns''}" by (rule trans)
  with r show ?thesis by blast
qed

end
