(* ===== verification/Json.thy ===== *)
theory Json
  imports Prelude Complex_Main "HOL-Library.List_Lexorder"
begin

text \<open>
  JSON values as \<open>serde_json::Value\<close> has them. An object is a map ordered by key, kept as the
  list of its entries; keys compare as their code points do, which is the order of their
  UTF-8 bytes. The text codec of \<open>serde_json\<close> is not part of the repository and is an
  argument wherever it is used.
\<close>

datatype json_num = PosInt u64 | NegInt int | Float rat

datatype json =
    JNull
  | JBool bool
  | JNum json_num
  | JStr rstr
  | JArr "json list"
  | JObj "(rstr \<times> json) list"

fun map_insert :: "rstr \<Rightarrow> json \<Rightarrow> (rstr \<times> json) list \<Rightarrow> (rstr \<times> json) list" where
  "map_insert k v [] = [(k, v)]"
| "map_insert k v ((k', v') # m) =
     (if k < k' then (k, v) # (k', v') # m
      else if k = k' then (k, v) # m
      else (k', v') # map_insert k v m)"

definition json_obj :: "(rstr \<times> json) list \<Rightarrow> json" where
  "json_obj kvs = JObj (fold (\<lambda>(k, v). map_insert k v) kvs [])"

text \<open>\<open>Value::get\<close> with a key, and the accessors that succeed on one kind of value.\<close>

fun json_get :: "rstr \<Rightarrow> json \<Rightarrow> json option" where
  "json_get k (JObj m) = map_of m k"
| "json_get k _ = None"

fun as_str :: "json \<Rightarrow> rstr option" where
  "as_str (JStr s) = Some s"
| "as_str _ = None"

fun as_u64 :: "json \<Rightarrow> u64 option" where
  "as_u64 (JNum (PosInt n)) = Some n"
| "as_u64 _ = None"

fun as_array :: "json \<Rightarrow> json list option" where
  "as_array (JArr vs) = Some vs"
| "as_array _ = None"

fun as_object :: "json \<Rightarrow> (rstr \<times> json) list option" where
  "as_object (JObj m) = Some m"
| "as_object _ = None"

definition json_opt_str :: "rstr option \<Rightarrow> json" where
  "json_opt_str s = (case s of None \<Rightarrow> JNull | Some t \<Rightarrow> JStr t)"

section \<open>Ordered maps\<close>

definition keys_sorted :: "(rstr \<times> json) list \<Rightarrow> bool" where
  "keys_sorted m \<longleftrightarrow> sorted_wrt (<) (map fst m)"

lemma map_insert_keys: "set (map fst (map_insert k v m)) = insert k (set (map fst m))"
  by (induction k v m rule: map_insert.induct) auto

lemma map_insert_sorted: "keys_sorted m \<Longrightarrow> keys_sorted (map_insert k v m)"
proof (induction k v m rule: map_insert.induct)
  case (2 k v k' v' m)
  consider "k < k'" | "k = k'" | "k' < k" by (rule linorder_cases)
  then show ?case
  proof cases
    case 1
    with "2.prems" show ?thesis by (auto simp: keys_sorted_def)
  next
    case 2
    with "2.prems" show ?thesis by (simp add: keys_sorted_def)
  next
    case 3
    then have "keys_sorted (map_insert k v m)" using 2 by (auto simp: keys_sorted_def)
    moreover have "\<forall>x \<in> set (map fst (map_insert k v m)). k' < x"
      using 3 "2.prems" unfolding map_insert_keys by (auto simp: keys_sorted_def)
    ultimately show ?thesis using 3 by (auto simp: keys_sorted_def)
  qed
qed (simp add: keys_sorted_def)

lemma map_insert_get: "keys_sorted m \<Longrightarrow> map_of (map_insert k v m) = (map_of m)(k \<mapsto> v)"
proof (induction k v m rule: map_insert.induct)
  case (2 k v k' v' m)
  then show ?case by (auto simp: keys_sorted_def fun_eq_iff)
qed simp

lemma json_obj_sorted_aux: "keys_sorted m \<Longrightarrow> keys_sorted (fold (\<lambda>(k, v). map_insert k v) kvs m)"
  by (induction kvs arbitrary: m) (auto simp: map_insert_sorted)

lemma json_obj_get_aux:
  "keys_sorted m \<Longrightarrow> map_of (fold (\<lambda>(k, v). map_insert k v) kvs m) = map_of m ++ map_of (rev kvs)"
  by (induction kvs arbitrary: m)
    (auto simp: map_insert_sorted map_insert_get map_add_assoc [symmetric] simp del: fun_upd_apply)

lemma json_obj_get: "json_get k (json_obj kvs) = map_of (rev kvs) k"
  by (simp add: json_obj_def json_obj_get_aux keys_sorted_def)

lemma map_insert_json_get:
  "keys_sorted m \<Longrightarrow> json_get k (JObj (map_insert k' v m)) = (if k = k' then Some v else json_get k (JObj m))"
  by (simp add: map_insert_get)

lemma json_obj_cases:
  obtains m where "json_obj kvs = JObj m" and "keys_sorted m"
  using json_obj_sorted_aux [of "[]" kvs] by (auto simp: json_obj_def keys_sorted_def)

end
