(* ===== verification/Rust_Float.thy ===== *)
theory Rust_Float
  imports Prelude Complex_Main "HOL-Library.Log_Nat"
begin

text \<open>
  The floating-point arithmetic the code uses. A finite \<open>f32\<close> or \<open>f64\<close> is a rational; an
  operation computes exactly and rounds to the nearest value with the precision of the type,
  ties to an even significand. Zeros are not signed here: nothing the code does with them
  tells them apart.
\<close>

section \<open>Rounding\<close>

definition round_even :: "rat \<Rightarrow> int" where
  "round_even x =
     (let f = \<lfloor>x\<rfloor>; d = x - of_int f
      in if d < 1 / 2 then f else if 1 / 2 < d then f + 1 else if even f then f else f + 1)"

text \<open>The exponent \<open>e\<close> with \<open>2\<^sup>e \<le> x < 2\<^sup>e\<^sup>+\<^sup>1\<close> of a positive \<open>x\<close>.\<close>

definition binexp :: "rat \<Rightarrow> int" where
  "binexp x = (if 1 \<le> x then bitlen \<lfloor>x\<rfloor> - 1 else - bitlen (\<lceil>1 / x\<rceil> - 1))"

text \<open>Precision \<open>p\<close>, least normal exponent \<open>lo\<close>: \<open>f32\<close> has 24 and -126, \<open>f64\<close> 53 and -1022.\<close>

definition unit_at :: "nat \<Rightarrow> int \<Rightarrow> rat \<Rightarrow> rat" where
  "unit_at p lo x = 2 powi (max (binexp x) lo + 1 - int p)"

definition fl :: "nat \<Rightarrow> int \<Rightarrow> rat \<Rightarrow> rat" where
  "fl p lo x = (if x = 0 then 0 else of_int (round_even (x / unit_at p lo x)) * unit_at p lo x)"

definition fl32 :: "rat \<Rightarrow> rat" where
  "fl32 = fl 24 (-126)"

definition fl64 :: "rat \<Rightarrow> rat" where
  "fl64 = fl 53 (-1022)"

lemma round_even_le: "x \<le> of_int n \<Longrightarrow> round_even x \<le> n"
proof -
  assume "x \<le> of_int n"
  then have "\<lfloor>x\<rfloor> \<le> n" by linarith
  moreover have "x - of_int \<lfloor>x\<rfloor> = 0" if "\<lfloor>x\<rfloor> = n" using \<open>x \<le> of_int n\<close> that by linarith
  ultimately show ?thesis by (cases "\<lfloor>x\<rfloor> = n") (auto simp: round_even_def Let_def)
qed

lemma round_even_ge: "of_int n \<le> x \<Longrightarrow> n \<le> round_even x"
proof -
  assume "of_int n \<le> x"
  then have "n \<le> \<lfloor>x\<rfloor>" by (simp add: le_floor_iff)
  then show ?thesis by (simp add: round_even_def Let_def)
qed

lemma round_even_of_int [simp]: "round_even (of_int n) = n"
  by (simp add: round_even_def Let_def)

lemma round_even_error: "\<bar>of_int (round_even x) - x\<bar> \<le> 1 / 2"
proof -
  define d where "d = x - of_int \<lfloor>x\<rfloor>"
  have d: "0 \<le> d" "d < 1" unfolding d_def by linarith+
  have "round_even x - \<lfloor>x\<rfloor> = (if d < 1 / 2 then 0 else if 1 / 2 < d then 1 else if even \<lfloor>x\<rfloor> then 0 else 1)"
    by (simp add: round_even_def Let_def d_def)
  then have "of_int (round_even x) - x = (if d < 1 / 2 then 0 else if 1 / 2 < d then 1
      else if even \<lfloor>x\<rfloor> then 0 else 1) - d"
    unfolding d_def by (simp split: if_splits)
  with d show ?thesis by (simp only: split: if_splits) auto
qed

lemma unit_pos [simp]: "0 < unit_at p lo x"
  by (simp add: unit_at_def)

lemma unit_nonneg [simp]: "0 \<le> unit_at p lo x"
  by (rule less_imp_le) simp

lemma unit_nonzero [simp]: "unit_at p lo x \<noteq> 0"
  using unit_pos [of p lo x] by linarith

lemma fl_0 [simp]: "fl p lo 0 = 0"
  by (simp add: fl_def)

lemma fl_nonneg: "0 \<le> x \<Longrightarrow> 0 \<le> fl p lo x"
  using round_even_ge [of 0 "x / unit_at p lo x"] less_imp_le [OF unit_pos] by (simp add: fl_def)

lemma fl_error: "x \<noteq> 0 \<Longrightarrow> \<bar>fl p lo x - x\<bar> \<le> unit_at p lo x / 2"
proof -
  assume "x \<noteq> 0"
  let ?u = "unit_at p lo x"
  have "fl p lo x - x = (of_int (round_even (x / ?u)) - x / ?u) * ?u"
    using \<open>x \<noteq> 0\<close> unit_pos [of p lo x] by (simp add: fl_def left_diff_distrib)
  then have "\<bar>fl p lo x - x\<bar> = \<bar>of_int (round_even (x / ?u)) - x / ?u\<bar> * ?u"
    using unit_pos [of p lo x] by (simp add: abs_mult)
  also have "\<dots> \<le> 1 / 2 * ?u" by (intro mult_right_mono round_even_error less_imp_le unit_pos)
  finally show ?thesis by simp
qed

text \<open>A bound that is a multiple of the unit survives rounding, and such a number is exact.\<close>

lemma fl_le:
  assumes "x \<le> b" and "0 \<le> b" and "b = of_int n * unit_at p lo x"
  shows "fl p lo x \<le> b"
proof -
  let ?u = "unit_at p lo x"
  have "x / ?u \<le> of_int n" using assms(1,3) by (simp add: pos_divide_le_eq)
  then have "round_even (x / ?u) \<le> n" by (rule round_even_le)
  then have "of_int (round_even (x / ?u)) * ?u \<le> of_int n * ?u" by (intro mult_right_mono) simp_all
  with assms(2,3) show ?thesis by (cases "x = 0") (simp_all add: fl_def)
qed

lemma fl_exact: "x = of_int n * unit_at p lo x \<Longrightarrow> fl p lo x = x"
proof -
  assume x: "x = of_int n * unit_at p lo x"
  then have "x / unit_at p lo x = of_int n" using unit_pos [of p lo x] by (metis less_irrefl nonzero_mult_div_cancel_right)
  with x show ?thesis by (simp add: fl_def)
qed

text \<open>The exponent is what it should be.\<close>

lemma bitlen_bounds_rat:
  assumes "0 < n"
  shows "(2::rat) powi (bitlen n - 1) \<le> of_int n" and "of_int n < (2::rat) powi bitlen n"
proof -
  have b: "2 ^ nat (bitlen n - 1) \<le> n \<and> n < 2 ^ nat (bitlen n)" using assms by (rule bitlen_bounds)
  have pos: "0 < bitlen n" using assms bitlen_nonneg [of n] bitlen_eq_zero_iff [of n] by linarith
  have "(2::rat) powi (bitlen n - 1) = of_int (2 ^ nat (bitlen n - 1))" "(2::rat) powi bitlen n = of_int (2 ^ nat (bitlen n))"
    using pos by (simp_all add: power_int_def)
  with b show "(2::rat) powi (bitlen n - 1) \<le> of_int n" "of_int n < (2::rat) powi bitlen n"
    by (simp_all only: of_int_le_iff of_int_less_iff)
qed

lemma binexp_bounds:
  assumes "0 < x"
  shows "2 powi binexp x \<le> x" and "x < 2 powi (binexp x + 1)"
proof -
  have "2 powi binexp x \<le> x \<and> x < 2 powi (binexp x + 1)"
  proof (cases "1 \<le> x")
    case True
    then have "0 < \<lfloor>x\<rfloor>" by simp
    note b = bitlen_bounds_rat [OF this]
    have "\<lfloor>x\<rfloor> + 1 \<le> 2 ^ nat (bitlen \<lfloor>x\<rfloor>)" using bitlen_bounds [OF \<open>0 < \<lfloor>x\<rfloor>\<close>] by linarith
    then have "of_int (\<lfloor>x\<rfloor> + 1) \<le> (of_int (2 ^ nat (bitlen \<lfloor>x\<rfloor>)) :: rat)" by (simp only: of_int_le_iff)
    moreover have "(2::rat) powi bitlen \<lfloor>x\<rfloor> = of_int (2 ^ nat (bitlen \<lfloor>x\<rfloor>))"
      by (simp add: power_int_def bitlen_nonneg)
    moreover have "of_int \<lfloor>x\<rfloor> \<le> x" "x < of_int (\<lfloor>x\<rfloor> + 1)" by linarith+
    moreover have "2 powi (bitlen \<lfloor>x\<rfloor> - 1) \<le> x" using b(1) by linarith
    ultimately show ?thesis using True by (simp add: binexp_def)
  next
    case False
    define n where "n = \<lceil>1 / x\<rceil> - 1"
    have "1 < 1 / x" using False assms by simp
    then have "0 < n" by (simp add: n_def less_ceiling_iff)
    note b = bitlen_bounds_rat [OF this]
    have n: "of_int n < 1 / x" "1 / x \<le> of_int n + 1" by (simp_all add: n_def) linarith+
    have "n + 1 \<le> 2 ^ nat (bitlen n)" using bitlen_bounds [OF \<open>0 < n\<close>] by linarith
    then have "of_int (n + 1) \<le> (of_int (2 ^ nat (bitlen n)) :: rat)" by (simp only: of_int_le_iff)
    moreover have "(2::rat) powi bitlen n = of_int (2 ^ nat (bitlen n))"
      by (simp add: power_int_def bitlen_nonneg)
    ultimately have up: "1 / x \<le> 2 powi bitlen n" using n(2) by simp
    have lo: "2 powi (bitlen n - 1) < 1 / x" using b(1) n(1) by simp
    have "2 powi (- bitlen n) \<le> x" using up assms by (simp add: power_int_minus field_simps)
    moreover have "x < 2 powi (1 - bitlen n)"
    proof -
      have "(2::rat) powi (1 - bitlen n) * 2 powi (bitlen n - 1) = 1"
        by (simp add: power_int_add [symmetric])
      moreover have "x * 2 powi (bitlen n - 1) < 1" using lo assms by (simp add: field_simps)
      ultimately have "x * 2 powi (bitlen n - 1) < 2 powi (1 - bitlen n) * 2 powi (bitlen n - 1)" by linarith
      then show ?thesis by (rule mult_right_less_imp_less) simp
    qed
    ultimately show ?thesis using False by (simp add: binexp_def n_def [symmetric] algebra_simps)
  qed
  then show "2 powi binexp x \<le> x" and "x < 2 powi (binexp x + 1)" by simp_all
qed

lemma binexp_less: "0 < x \<Longrightarrow> x < 2 powi e \<Longrightarrow> binexp x < e"
proof (rule ccontr)
  assume "0 < x" "x < 2 powi e" "\<not> binexp x < e"
  then have "(2::rat) powi e \<le> 2 powi binexp x" by (intro power_int_increasing) simp_all
  with binexp_bounds(1) [OF \<open>0 < x\<close>] \<open>x < 2 powi e\<close> show False by linarith
qed

end
