(* ===== verification/Format.thy ===== *)
theory Format
  imports Json Rust_Float Rust_Text Net_Addr
begin

text \<open>
  \<open>format.rs\<close>: rendering of a reply for a terminal. The JSON codec is an argument: \<open>from_str\<close>
  parses, \<open>to_pretty\<close> and \<open>to_compact\<close> print values, \<open>show_num\<close> prints a number.
\<close>

section \<open>Quantities\<close>

definition human_age :: "u64 \<Rightarrow> rstr" where
  "human_age secs =
     (let s = unat secs
      in if s < 60 then dec s @ lit ''s''
         else if s < 3600 then dec (s div 60) @ lit ''m'' @ dec (s mod 60) @ lit ''s''
         else dec (s div 3600) @ lit ''h'' @ dec (s mod 3600 div 60) @ lit ''m'')"

definition byte_units :: "rstr list" where
  "byte_units = [lit ''B'', lit ''K'', lit ''M'', lit ''G'', lit ''T'']"

function scale_bytes :: "nat \<Rightarrow> rat \<Rightarrow> rat \<times> nat" where
  "scale_bytes u v = (if 1024 \<le> v \<and> u < length byte_units - 1 then scale_bytes (Suc u) (fl64 (v / 1024)) else (v, u))"
  by pat_completeness auto
termination
  by (relation "measure (\<lambda>(u, v). length byte_units - u)") (auto simp: byte_units_def)

declare scale_bytes.simps [simp del]

text \<open>\<open>{:.1}\<close> of a value that is not negative: the nearest tenth, ties to even.\<close>

definition one_decimal :: "rat \<Rightarrow> rstr" where
  "one_decimal v =
     (let t = nat (round_even (10 * v)) in dec (t div 10) @ lit ''.'' @ dec (t mod 10))"

definition human_bytes :: "u64 \<Rightarrow> rstr" where
  "human_bytes n =
     (let (v, u) = scale_bytes 0 (fl64 (of_nat (unat n)))
      in if u = 0 then dec (unat n) @ lit ''B'' else one_decimal v @ byte_units ! u)"

section \<open>Scalars and fields\<close>

fun scalar :: "(json_num \<Rightarrow> rstr) \<Rightarrow> (json \<Rightarrow> rstr) \<Rightarrow> json \<Rightarrow> rstr" where
  "scalar show_num to_compact (JStr s) = s"
| "scalar show_num to_compact JNull = lit ''-''"
| "scalar show_num to_compact (JBool b) = lit (if b then ''true'' else ''false'')"
| "scalar show_num to_compact (JNum n) = show_num n"
| "scalar show_num to_compact v = to_compact v"

definition field :: "json \<Rightarrow> string \<Rightarrow> rstr" where
  "field v k = (case json_get (lit k) v of Some (JStr s) \<Rightarrow> s | _ \<Rightarrow> lit ''-'')"

definition u64_field :: "json \<Rightarrow> string \<Rightarrow> u64" where
  "u64_field v k = (case json_get (lit k) v of
      Some x \<Rightarrow> (case as_u64 x of Some n \<Rightarrow> n | None \<Rightarrow> 0) | None \<Rightarrow> 0)"

section \<open>Key-value view\<close>

definition indented :: "nat \<Rightarrow> rstr \<Rightarrow> rstr" where
  "indented n k = concat (replicate n (lit ''  '')) @ k"

fun is_object :: "json \<Rightarrow> bool" where
  "is_object (JObj m) = True"
| "is_object _ = False"

fun collect_kv :: "(json_num \<Rightarrow> rstr) \<Rightarrow> (json \<Rightarrow> rstr) \<Rightarrow> nat \<Rightarrow> json \<Rightarrow> (rstr \<times> rstr option) list"
  and collect_entries ::
    "(json_num \<Rightarrow> rstr) \<Rightarrow> (json \<Rightarrow> rstr) \<Rightarrow> nat \<Rightarrow> (rstr \<times> json) list \<Rightarrow> (rstr \<times> rstr option) list" where
  "collect_kv show_num to_compact indent (JObj m) = collect_entries show_num to_compact indent m"
| "collect_kv show_num to_compact indent _ = []"
| "collect_entries show_num to_compact indent [] = []"
| "collect_entries show_num to_compact indent ((k, v) # m) =
     (if indent = 0 \<and> k = lit ''status'' then []
      else if is_object v then (indented indent k, None) # collect_kv show_num to_compact (indent + 1) v
      else [(indented indent k, Some (scalar show_num to_compact v))])
     @ collect_entries show_num to_compact indent m"

definition kv_width :: "(rstr \<times> rstr option) list \<Rightarrow> nat" where
  "kv_width ls = fold max (map (\<lambda>(k, v). str_len k) (filter (\<lambda>(k, v). v \<noteq> None) ls)) 0"

definition kv_line :: "nat \<Rightarrow> rstr \<times> rstr option \<Rightarrow> rstr" where
  "kv_line w kv = (case kv of
      (k, Some s) \<Rightarrow> pad_right w k @ lit ''   '' @ s @ [10]
    | (k, None) \<Rightarrow> k @ lit '':'' @ [10])"

definition render_kv :: "(json_num \<Rightarrow> rstr) \<Rightarrow> (json \<Rightarrow> rstr) \<Rightarrow> rstr \<Rightarrow> json \<Rightarrow> rstr" where
  "render_kv show_num to_compact command v =
     (let ls = collect_kv show_num to_compact 0 v
      in if ls = [] then command @ lit '': ok''
         else trim_end (concat (map (kv_line (kv_width ls)) ls)))"

section \<open>Column view\<close>

definition stream_header :: "rstr list" where
  "stream_header = [lit ''ID'', lit ''PEER'', lit ''TARGET'', lit ''ISO'', lit ''AGE'', lit ''UP'', lit ''DOWN'']"

definition stream_cells :: "(json_num \<Rightarrow> rstr) \<Rightarrow> (json \<Rightarrow> rstr) \<Rightarrow> json \<Rightarrow> rstr list" where
  "stream_cells show_num to_compact r =
     [case json_get (lit ''id'') r of Some v \<Rightarrow> scalar show_num to_compact v | None \<Rightarrow> [],
      field r ''peer'', field r ''target'', field r ''isolation'',
      human_age (u64_field r ''age_secs''),
      human_bytes (u64_field r ''bytes_to_upstream''),
      human_bytes (u64_field r ''bytes_to_client'')]"

text \<open>The width of a column is the largest byte length in it.\<close>

definition widen :: "nat list \<Rightarrow> rstr list \<Rightarrow> nat list" where
  "widen width row = map2 (\<lambda>w cell. max w (str_len cell)) width row"

definition column_widths :: "rstr list list \<Rightarrow> nat list" where
  "column_widths table = foldl widen (replicate (length (hd table)) 0) table"

definition table_line :: "nat list \<Rightarrow> rstr list \<Rightarrow> rstr" where
  "table_line width row = trim_end (join (lit ''  '') (map2 (\<lambda>cell w. pad_right w cell) row width))"

definition render_streams :: "(json_num \<Rightarrow> rstr) \<Rightarrow> (json \<Rightarrow> rstr) \<Rightarrow> json list \<Rightarrow> rstr" where
  "render_streams show_num to_compact rows =
     (if rows = [] then lit ''no active connections''
      else
        (let table = stream_header # map (stream_cells show_num to_compact) rows;
             width = column_widths table
         in trim_end (concat (map (\<lambda>row. table_line width row @ [10]) table))))"

section \<open>Replies\<close>

definition render_table :: "(json_num \<Rightarrow> rstr) \<Rightarrow> (json \<Rightarrow> rstr) \<Rightarrow> rstr \<Rightarrow> json \<Rightarrow> rstr" where
  "render_table show_num to_compact command v =
     (if Option.bind (json_get (lit ''status'') v) as_str = Some (lit ''error'') then
        lit ''error: '' @
          (case Option.bind (json_get (lit ''message'') v) as_str of
             Some msg \<Rightarrow> msg | None \<Rightarrow> lit ''(no message)'')
      else
        (case Option.bind (json_get (lit ''streams'') v) as_array of
           Some rows \<Rightarrow> render_streams show_num to_compact rows
         | None \<Rightarrow> render_kv show_num to_compact command v))"

datatype output_format = TableOutput | JsonOutput

definition render ::
  "(rstr \<Rightarrow> json option) \<Rightarrow> (json \<Rightarrow> rstr option) \<Rightarrow> (json_num \<Rightarrow> rstr) \<Rightarrow> (json \<Rightarrow> rstr) \<Rightarrow> rstr \<Rightarrow> rstr \<Rightarrow>
   output_format \<Rightarrow> rstr" where
  "render from_str to_pretty show_num to_compact command reply format =
     (case from_str reply of
        None \<Rightarrow> trim_end reply
      | Some v \<Rightarrow>
          (case format of
             JsonOutput \<Rightarrow> (case to_pretty v of Some s \<Rightarrow> s | None \<Rightarrow> trim_end reply)
           | TableOutput \<Rightarrow> render_table show_num to_compact command v))"

end
