(* ===== verification/Format_Guarantees.thy ===== *)
theory Format_Guarantees
  imports Format
begin

text \<open>
  What \<open>tord query\<close> prints: byte counts to the nearest tenth, ages, aligned columns and
  keys, and the text of error replies.
\<close>

section \<open>Byte counts\<close>

lemma fl64_exact:
  assumes "x < 2 ^ 53" and "1 \<le> (of_nat x :: rat) / 1024 ^ j"
  shows "fl64 (of_nat x / 1024 ^ j) = of_nat x / 1024 ^ j"
proof -
  define y :: rat where "y = of_nat x / 1024 ^ j"
  have "(1024::rat) = 2 ^ 10" by simp
  then have "(1024::rat) ^ j = 2 ^ (10 * j)" by (simp only: power_mult)
  then have y_eq: "y = of_nat x / 2 ^ (10 * j)" by (simp add: y_def)
  have y1: "1 \<le> y" using assms(2) by (simp only: y_def)
  then have y: "1 \<le> y" "0 < y" by linarith+
  define e where "e = binexp y"
  have "0 < \<lfloor>y\<rfloor>" using y(1) by simp
  then have "0 < bitlen \<lfloor>y\<rfloor>" using bitlen_nonneg [of "\<lfloor>y\<rfloor>"] bitlen_eq_zero_iff [of "\<lfloor>y\<rfloor>"] by linarith
  then have lo: "0 \<le> e" using y(1) by (simp add: e_def binexp_def)
  have "2 ^ nat e \<le> y" using binexp_bounds(1) [OF y(2)] lo by (simp add: e_def [symmetric] power_int_def)
  then have "2 ^ nat e * 2 ^ (10 * j) \<le> (of_nat x :: rat)" by (simp add: y_eq field_simps)
  also have "\<dots> < of_nat (2 ^ 53)" using assms(1) by (simp only: of_nat_less_iff)
  finally have "(2::rat) ^ (nat e + 10 * j) < 2 ^ 53" by (simp add: power_add)
  then have hi: "nat e + 10 * j < 53" by (rule power_less_imp_less_exp [rotated]) simp
  define k where "k = 52 - nat e"
  have "max e (- 1022) + 1 - int 53 = - int k" using lo hi by (simp add: k_def)
  then have u: "unit_at 53 (-1022) y = inverse (2 ^ k)"
    by (simp add: unit_at_def e_def [symmetric] power_int_minus)
  have "(2::rat) ^ k = 2 ^ (k - 10 * j) * 2 ^ (10 * j)"
    using hi by (simp add: power_add [symmetric] k_def)
  then have "y * 2 ^ k = of_nat x * 2 ^ (k - 10 * j)" by (simp add: y_eq)
  then have "y = of_int (int x * 2 ^ (k - 10 * j)) * unit_at 53 (-1022) y"
    unfolding u by (simp add: field_simps)
  then show ?thesis unfolding fl64_def y_def by (rule fl_exact)
qed

lemma one_decimal_error:
  "0 \<le> v \<Longrightarrow> \<bar>of_nat (nat (round_even (10 * v))) - 10 * v\<bar> \<le> 1 / 2"
  using round_even_ge [of 0 "10 * v"] round_even_error [of "10 * v"] by simp

text \<open>The loop divides exactly, and stops at the unit the count belongs to.\<close>

lemma div_1024: "1024 \<le> (v::rat) \<Longrightarrow> 1 \<le> v / 1024"
  by simp

lemma scale_bytes_exact:
  assumes "n < 2 ^ 53" and "u \<le> 4" and "u = 0 \<or> 1 \<le> (of_nat n :: rat) / 1024 ^ u"
  shows "\<exists>u'. scale_bytes u (of_nat n / 1024 ^ u) = (of_nat n / 1024 ^ u', u') \<and> u \<le> u' \<and> u' \<le> 4
    \<and> (u' = u \<or> 1 \<le> (of_nat n :: rat) / 1024 ^ u') \<and> (u' < 4 \<longrightarrow> (of_nat n :: rat) / 1024 ^ u' < 1024)"
  using assms
proof (induction "4 - u" arbitrary: u)
  case 0
  then show ?case by (subst scale_bytes.simps) (simp add: byte_units_def)
next
  case (Suc d)
  show ?case
  proof (cases "1024 \<le> (of_nat n :: rat) / 1024 ^ u")
    case True
    have eq: "(of_nat n :: rat) / 1024 ^ u / 1024 = of_nat n / 1024 ^ Suc u" by simp
    have one: "1 \<le> (of_nat n :: rat) / 1024 ^ Suc u" unfolding eq [symmetric] using True by (rule div_1024)
    have "u < 4" using Suc.hyps(2) by simp
    then have "scale_bytes u (of_nat n / 1024 ^ u) = scale_bytes (Suc u) (of_nat n / 1024 ^ Suc u)"
      using True fl64_exact [OF Suc.prems(1) one] by (subst scale_bytes.simps) (simp add: byte_units_def mult.commute)
    moreover obtain u' where "scale_bytes (Suc u) (of_nat n / 1024 ^ Suc u) = (of_nat n / 1024 ^ u', u')" and u': "Suc u \<le> u'" "u' \<le> 4"
        "u' = Suc u \<or> 1 \<le> (of_nat n :: rat) / 1024 ^ u'" "u' < 4 \<longrightarrow> (of_nat n :: rat) / 1024 ^ u' < 1024"
      using Suc.hyps(1) [of "Suc u"] Suc.hyps(2) one Suc.prems(1) \<open>u < 4\<close> by force
    moreover have "1 \<le> (of_nat n :: rat) / 1024 ^ u'" using u'(3) one by blast
    ultimately show ?thesis using Suc_leD [OF u'(1)] by (simp only: ) blast
  next
    case False
    then have "scale_bytes u (of_nat n / 1024 ^ u) = (of_nat n / 1024 ^ u, u)"
      by (subst scale_bytes.simps) simp
    with False Suc.prems show ?thesis by (intro exI [of _ u]) (simp add: not_le)
  qed
qed

lemma human_bytes_scaled:
  assumes "unat n < 2 ^ 53"
  obtains "unat n < 1024" and "human_bytes n = dec (unat n) @ lit ''B''"
  | u where "1 \<le> u" and "u \<le> 4" and "1024 ^ u \<le> unat n" and "u < 4 \<Longrightarrow> unat n < 1024 ^ (u + 1)"
    and "human_bytes n = one_decimal (of_nat (unat n) / 1024 ^ u) @ byte_units ! u"
proof -
  define N where "N = unat n"
  have N: "N < 2 ^ 53" using assms by (simp only: N_def)
  have "fl64 (of_nat N) = of_nat N"
  proof (cases "N = 0")
    case False
    then show ?thesis using fl64_exact [OF N, of 0] by simp
  qed (simp add: fl64_def)
  moreover obtain u where u: "scale_bytes 0 (of_nat N / 1024 ^ 0) = (of_nat N / 1024 ^ u, u)" "u \<le> 4"
      "u = 0 \<or> 1 \<le> (of_nat N :: rat) / 1024 ^ u" "u < 4 \<longrightarrow> (of_nat N :: rat) / 1024 ^ u < 1024"
    using scale_bytes_exact [OF N, of 0] by auto
  ultimately have h: "human_bytes n = (if u = 0 then dec N @ lit ''B'' else one_decimal (of_nat N / 1024 ^ u) @ byte_units ! u)"
    unfolding human_bytes_def N_def [symmetric] by simp
  have upper: "N < 1024 ^ (u + 1)" if "u < 4"
  proof -
    have "(of_nat N :: rat) < 1024 * 1024 ^ u" using u(4) that by (simp add: divide_less_eq)
    then have "(of_nat N :: rat) < of_nat (1024 ^ (u + 1))" by simp
    then show ?thesis by (simp only: of_nat_less_iff)
  qed
  show thesis
  proof (cases "u = 0")
    case True
    with h upper have "N < 1024" "human_bytes n = dec N @ lit ''B''" by simp_all
    then show ?thesis unfolding N_def by (rule that(1))
  next
    case False
    then have "(1024 ^ u :: rat) \<le> of_nat N" using u(3) by (simp add: le_divide_eq)
    then have "(of_nat (1024 ^ u) :: rat) \<le> of_nat N" by simp
    then have low: "1024 ^ u \<le> N" by (simp only: of_nat_le_iff)
    have out: "human_bytes n = one_decimal (of_nat N / 1024 ^ u) @ byte_units ! u" using h False by simp
    have "1 \<le> u" using False by simp
    then show ?thesis
      by (rule that(2) [OF _ u(2) low [unfolded N_def] _ out [unfolded N_def]]) (use upper N_def in simp)
  qed
qed

text \<open>
  C39. Byte counts below \<open>2\<^sup>5\<^sup>3\<close>: under 1024 the exact number of bytes; otherwise the unit with
  \<open>1024\<^sup>u \<le> n < 1024\<^sup>u\<^sup>+\<^sup>1\<close> (terabytes without a limit) and a number of tenths that is nearest to
  the exact quotient: the floating-point arithmetic never costs a tenth.
\<close>

theorem human_bytes_nearest:
  assumes "unat n < 2 ^ 53"
  shows "(unat n < 1024 \<and> human_bytes n = dec (unat n) @ lit ''B'')
    \<or> (\<exists>u t. 1 \<le> u \<and> u \<le> 4 \<and> 1024 ^ u \<le> unat n \<and> (u < 4 \<longrightarrow> unat n < 1024 ^ (u + 1))
         \<and> human_bytes n = dec (t div 10) @ lit ''.'' @ dec (t mod 10) @ byte_units ! u
         \<and> 2 * \<bar>int t * 1024 ^ u - 10 * int (unat n)\<bar> \<le> 1024 ^ u)"
  using assms
proof (cases rule: human_bytes_scaled)
  case (2 u)
  define N where "N = unat n"
  define v where "v = (of_nat N :: rat) / 1024 ^ u"
  define t where "t = nat (round_even (10 * v))"
  have "0 \<le> v" by (simp add: v_def)
  then have "\<bar>of_nat t - 10 * v\<bar> \<le> 1 / 2" unfolding t_def by (rule one_decimal_error)
  then have "\<bar>of_nat t - 10 * v\<bar> * 1024 ^ u \<le> 1 / 2 * 1024 ^ u" by (intro mult_right_mono) simp_all
  moreover have "\<bar>of_nat t - 10 * v\<bar> * 1024 ^ u = \<bar>of_nat t * 1024 ^ u - 10 * of_nat N\<bar>"
  proof -
    have "(of_nat t - 10 * v) * 1024 ^ u = of_nat t * 1024 ^ u - 10 * of_nat N"
      by (simp add: v_def left_diff_distrib)
    then show ?thesis by (metis abs_mult abs_of_nonneg zero_le_numeral zero_le_power)
  qed
  ultimately have "of_int (2 * \<bar>int t * 1024 ^ u - 10 * int N\<bar>) \<le> (of_int (1024 ^ u) :: rat)" by simp
  then have "2 * \<bar>int t * 1024 ^ u - 10 * int N\<bar> \<le> 1024 ^ u" by (simp only: of_int_le_iff)
  moreover have "human_bytes n = dec (t div 10) @ lit ''.'' @ dec (t mod 10) @ byte_units ! u"
    unfolding 2(5) N_def [symmetric] v_def [symmetric] by (simp add: one_decimal_def t_def Let_def)
  ultimately show ?thesis using 2(1-4) unfolding N_def by blast
qed simp

theorem human_bytes_nearest_witness:
  "human_bytes 1048575 = lit ''1024.0K''"
proof -
  have n: "unat (1048575 :: u64) = 1048575" by simp
  obtain u t where u: "1 \<le> u" "u \<le> (4::nat)" "1024 ^ u \<le> (1048575::nat)" "u < 4 \<longrightarrow> (1048575::nat) < 1024 ^ (u + 1)"
      and h: "human_bytes 1048575 = dec (t div 10) @ lit ''.'' @ dec (t mod 10) @ byte_units ! u"
      and t: "2 * \<bar>int t * 1024 ^ u - 10485750\<bar> \<le> 1024 ^ u"
    using human_bytes_nearest [of 1048575] by (auto simp: n)
  have "u = 1"
  proof (rule ccontr)
    assume "u \<noteq> 1"
    with u(1) have "2 \<le> u" by simp
    then have "(1024::nat) ^ 2 \<le> 1024 ^ u" by (rule power_increasing) simp
    with u(3) show False by simp
  qed
  with t have "t = 10240" by simp
  with h \<open>u = 1\<close> show ?thesis
    by (simp add: byte_units_def dec_def radix.simps digit_char_def lit_def)
qed

section \<open>Widths\<close>

lemma length_le_str_len: "length s \<le> str_len s"
proof (induction s)
  case (Cons c s)
  then show ?case by (simp add: str_len_def utf8_encode_def utf8_char_def)
qed (simp add: str_len_def utf8_encode_def)

lemma join_at:
  "i < length ps \<Longrightarrow> \<exists>rest. drop (sum_list (map (\<lambda>p. length p + length sep) (take i ps))) (join sep ps) = ps ! i @ rest"
proof (induction sep ps arbitrary: i rule: join.induct)
  case (3 sep s s' ss)
  show ?case
  proof (cases i)
    case (Suc j)
    then have "j < length (s' # ss)" using "3.prems" by simp
    from "3.IH" [OF this] Suc show ?thesis by simp
  qed simp
qed simp_all

lemma length_join:
  "ps \<noteq> [] \<Longrightarrow> length (join sep ps) + length sep = sum_list (map (\<lambda>p. length p + length sep) ps)"
  by (induction sep ps rule: join.induct) simp_all

lemma widen_length: "length row = length width \<Longrightarrow> length (widen width row) = length width"
  by (simp add: widen_def)

lemma widen_nth:
  "length row = length width \<Longrightarrow> i < length width \<Longrightarrow> widen width row ! i = max (width ! i) (str_len (row ! i))"
  by (simp add: widen_def)

lemma foldl_widen:
  "\<forall>row \<in> set table. length row = length width \<Longrightarrow>
   length (foldl widen width table) = length width
   \<and> (\<forall>i < length width. width ! i \<le> foldl widen width table ! i
        \<and> (\<forall>row \<in> set table. str_len (row ! i) \<le> foldl widen width table ! i))"
proof (induction table arbitrary: width)
  case (Cons row table)
  have len: "length (widen width row) = length width" using Cons.prems by (simp add: widen_length)
  with Cons.IH [of "widen width row"] Cons.prems show ?case
    by (auto simp: widen_nth)
qed simp

lemma column_widths_ok:
  assumes "table \<noteq> []" and "\<forall>row \<in> set table. length row = n"
  shows "length (column_widths table) = n"
    and "row \<in> set table \<Longrightarrow> i < n \<Longrightarrow> str_len (row ! i) \<le> column_widths table ! i"
proof -
  have "length (hd table) = n" using assms by (cases table) simp_all
  with foldl_widen [of table "replicate n 0"] assms(2)
  show "length (column_widths table) = n"
    "row \<in> set table \<Longrightarrow> i < n \<Longrightarrow> str_len (row ! i) \<le> column_widths table ! i"
    by (simp_all add: column_widths_def)
qed

definition padded :: "nat list \<Rightarrow> rstr list \<Rightarrow> rstr list" where
  "padded width row = map2 (\<lambda>cell w. pad_right w cell) row width"

definition column_start :: "nat list \<Rightarrow> nat \<Rightarrow> nat" where
  "column_start width i = sum_list (map (\<lambda>w. w + 2) (take i width))"

lemma padded_lengths:
  "length row = length width \<Longrightarrow> \<forall>i < length width. length (row ! i) \<le> width ! i \<Longrightarrow>
   map length (padded width row) = width"
  by (rule nth_equalityI) (simp_all add: padded_def length_pad_right max_absorb1)

lemma padded_aligned:
  assumes "length row = length width" and "\<forall>i < length width. length (row ! i) \<le> width ! i" and "i < length width"
  shows "take (length (row ! i)) (drop (column_start width i) (join (lit ''  '') (padded width row))) = row ! i"
proof -
  have "map (\<lambda>p. length p + length (lit ''  '')) (take i (padded width row)) = map (\<lambda>w. w + 2) (take i width)"
    using arg_cong [OF padded_lengths [OF assms(1,2)], of "\<lambda>ws. map (\<lambda>w. w + 2) (take i ws)"]
    by (simp add: take_map comp_def lit_def)
  then obtain rest where "drop (column_start width i) (join (lit ''  '') (padded width row)) = padded width row ! i @ rest"
    using join_at [of i "padded width row" "lit ''  ''"] assms by (auto simp: column_start_def padded_def)
  moreover have "padded width row ! i = row ! i @ replicate (width ! i - length (row ! i)) 32"
    using assms by (simp add: padded_def pad_right_def)
  ultimately show ?thesis by simp
qed

text \<open>
  C38. The stream table is aligned: all lines are padded to one length, and in each the cell of a
  column starts at the same position, whatever the cells contain (widths count bytes and
  padding counts characters, which only widens a column); then trailing blanks are removed.
\<close>

theorem streams_table_aligned:
  assumes "rows \<noteq> []"
  shows "\<exists>width. length width = 7
    \<and> render_streams show_num to_compact rows = trim_end (concat (map (\<lambda>cells.
         trim_end (join (lit ''  '') (padded width cells)) @ [10])
         (stream_header # map (stream_cells show_num to_compact) rows)))
    \<and> (\<forall>cells \<in> set (stream_header # map (stream_cells show_num to_compact) rows).
         length (join (lit ''  '') (padded width cells)) + 2 = column_start width 7
         \<and> (\<forall>i < 7. take (length (cells ! i)) (drop (column_start width i) (join (lit ''  '') (padded width cells)))
              = cells ! i))"
proof -
  define table where "table = stream_header # map (stream_cells show_num to_compact) rows"
  define width where "width = column_widths table"
  have seven: "\<forall>cells \<in> set table. length cells = 7"
    by (auto simp: table_def stream_header_def stream_cells_def)
  have ne: "table \<noteq> []" by (simp add: table_def)
  have len: "length width = 7" unfolding width_def by (rule column_widths_ok(1) [OF ne seven])
  have fits: "\<forall>i < length width. length (cells ! i) \<le> width ! i" if "cells \<in> set table" for cells
  proof (intro allI impI)
    fix i
    assume "i < length width"
    then have "str_len (cells ! i) \<le> width ! i"
      unfolding width_def by (intro column_widths_ok(2) [OF ne seven that]) (simp add: len [unfolded width_def])
    with length_le_str_len show "length (cells ! i) \<le> width ! i" by (rule order_trans)
  qed
  have line: "length (join (lit ''  '') (padded width cells)) + 2 = column_start width 7"
    if "cells \<in> set table" for cells
  proof -
    have cells: "length cells = length width" using seven that len by simp
    have "padded width cells \<noteq> []" using cells len by (auto simp: padded_def)
    from length_join [OF this, of "lit ''  ''"]
    have "length (join (lit ''  '') (padded width cells)) + 2 = sum_list (map (\<lambda>w. w + 2) (map length (padded width cells)))"
      by (simp add: lit_def comp_def)
    also have "map length (padded width cells) = width" by (rule padded_lengths [OF cells fits [OF that]])
    finally show ?thesis using len by (simp add: column_start_def)
  qed
  have cell: "take (length (cells ! i)) (drop (column_start width i) (join (lit ''  '') (padded width cells))) = cells ! i"
    if "cells \<in> set table" "i < 7" for cells i
    using seven that len by (intro padded_aligned fits) simp_all
  have render: "render_streams show_num to_compact rows =
      trim_end (concat (map (\<lambda>cells. trim_end (join (lit ''  '') (padded width cells)) @ [10]) table))"
    using assms by (simp only: render_streams_def if_False Let_def table_line_def padded_def table_def width_def)
  show ?thesis
    unfolding table_def [symmetric]
    by (intro exI [of _ width] conjI ballI allI impI) (simp_all only: len render line cell)
qed

definition example_row :: json where
  "example_row = json_obj [(lit ''id'', JNum (PosInt 3)), (lit ''target'', JStr (lit ''a.onion:853'')),
     (lit ''age_secs'', JNum (PosInt 75))]"

theorem streams_table_aligned_witness:
  "\<exists>width. length width = 7
    \<and> take 11 (drop (column_start width 2) (join (lit ''  '') (padded width (stream_cells (\<lambda>n. []) (\<lambda>v. []) example_row))))
       = lit ''a.onion:853''"
proof -
  have "stream_cells (\<lambda>n. []) (\<lambda>v. []) example_row ! 2 = lit ''a.onion:853''"
    by (simp add: stream_cells_def field_def example_row_def json_obj_get)
  moreover have "length (lit ''a.onion:853'') = 11" by (simp add: lit_def)
  moreover have "stream_cells (\<lambda>n. []) (\<lambda>v. []) example_row
      \<in> set (stream_header # map (stream_cells (\<lambda>n. []) (\<lambda>v. [])) [example_row])" by simp
  moreover have "(2::nat) < 7" by simp
  ultimately show ?thesis
    using streams_table_aligned [of "[example_row]" "\<lambda>n. []" "\<lambda>v. []"] by (metis list.distinct(1))
qed

section \<open>Keys and values\<close>

lemma fold_max_ge: "(x::nat) \<in> set xs \<or> x \<le> a \<Longrightarrow> x \<le> fold max xs a"
proof (induction xs arbitrary: a)
  case (Cons y ys)
  then have "x \<in> set ys \<or> x \<le> max y a" by (metis max.cobounded1 max.coboundedI2 set_ConsD)
  then have "x \<le> fold max ys (max y a)" by (rule Cons.IH)
  then show ?case by (simp only: fold_Cons o_apply)
qed simp

lemma kv_width_ge: "(k, Some s) \<in> set ls \<Longrightarrow> length k \<le> kv_width ls"
proof -
  assume "(k, Some s) \<in> set ls"
  then have "str_len k \<in> set (map (\<lambda>(k, v). str_len k) (filter (\<lambda>(k, v). v \<noteq> None) ls))"
    unfolding set_map set_filter by (intro image_eqI [of _ _ "(k, Some s)"]) simp_all
  then have "str_len k \<le> kv_width ls" unfolding kv_width_def by (intro fold_max_ge) blast
  with length_le_str_len [of k] show ?thesis by linarith
qed

lemma collect_flat:
  "\<forall>(k, v) \<in> set m. \<not> is_object v \<Longrightarrow>
   collect_entries show_num to_compact 0 m =
     map (\<lambda>(k, v). (k, Some (scalar show_num to_compact v))) (filter (\<lambda>(k, v). k \<noteq> lit ''status'') m)"
  by (induction m) (auto simp: indented_def)

text \<open>
  The key-value view of a flat reply: one line per entry except the framing \<open>status\<close>, in
  key order, each made of the key, blanks up to a common column, and the value.
\<close>

theorem kv_view:
  assumes "\<forall>(k, v) \<in> set m. \<not> is_object v" and "filter (\<lambda>(k, v). k \<noteq> lit ''status'') m \<noteq> []"
  shows "\<exists>w. render_kv show_num to_compact command (JObj m) = trim_end (concat (map (\<lambda>(k, v).
         k @ replicate (w - length k) 32 @ lit ''   '' @ scalar show_num to_compact v @ [10])
         (filter (\<lambda>(k, v). k \<noteq> lit ''status'') m)))
    \<and> (\<forall>(k, v) \<in> set m. k \<noteq> lit ''status'' \<longrightarrow> length (k @ replicate (w - length k) 32) = w)"
proof -
  define es where "es = filter (\<lambda>(k, v). k \<noteq> lit ''status'') m"
  define ls where "ls = map (\<lambda>(k, v). (k, Some (scalar show_num to_compact v))) es"
  have ls: "collect_kv show_num to_compact 0 (JObj m) = ls"
    using collect_flat [OF assms(1)] by (simp add: ls_def es_def)
  have "map (kv_line (kv_width ls)) ls = map (\<lambda>(k, v).
      k @ replicate (kv_width ls - length k) 32 @ lit ''   '' @ scalar show_num to_compact v @ [10]) es"
    by (auto simp: ls_def kv_line_def pad_right_def)
  moreover have "ls \<noteq> []" using assms(2) by (simp add: ls_def es_def)
  ultimately have out: "render_kv show_num to_compact command (JObj m) = trim_end (concat (map (\<lambda>(k, v).
      k @ replicate (kv_width ls - length k) 32 @ lit ''   '' @ scalar show_num to_compact v @ [10]) es))"
    by (simp only: render_kv_def ls Let_def if_False)
  have width: "length (k @ replicate (kv_width ls - length k) 32) = kv_width ls"
    if "(k, v) \<in> set m" "k \<noteq> lit ''status''" for k v
  proof -
    have "(k, Some (scalar show_num to_compact v)) \<in> set ls" using that by (force simp: ls_def es_def)
    from kv_width_ge [OF this] show ?thesis by simp
  qed
  show ?thesis
  proof (intro exI [of _ "kv_width ls"] conjI ballI)
    fix x
    assume x: "x \<in> set m"
    obtain k v where "x = (k, v)" by fastforce
    with x width show "case x of (k, v) \<Rightarrow> k \<noteq> lit ''status'' \<longrightarrow>
        length (k @ replicate (kv_width ls - length k) 32) = kv_width ls"
      by simp
  qed (rule out [unfolded es_def])
qed

theorem kv_view_witness:
  "\<exists>w. render_kv (\<lambda>n. lit ''1'') (\<lambda>v. []) (lit ''ping'') (JObj [(lit ''pong'', JBool True), (lit ''status'', JStr (lit ''ok''))])
     = trim_end (lit ''pong'' @ replicate (w - 4) 32 @ lit ''   true'' @ [10])"
proof -
  let ?m = "[(lit ''pong'', JBool True), (lit ''status'', JStr (lit ''ok''))]"
  have "\<forall>(k, v) \<in> set ?m. \<not> is_object v" "filter (\<lambda>(k, v). k \<noteq> lit ''status'') ?m \<noteq> []" by simp_all
  from kv_view [OF this, of "\<lambda>n. lit ''1''" "\<lambda>v. []" "lit ''ping''"]
  obtain w where "render_kv (\<lambda>n. lit ''1'') (\<lambda>v. []) (lit ''ping'') (JObj ?m) = trim_end (concat (map (\<lambda>(k, v).
      k @ replicate (w - length k) 32 @ lit ''   '' @ scalar (\<lambda>n. lit ''1'') (\<lambda>v. []) v @ [10])
      (filter (\<lambda>(k, v). k \<noteq> lit ''status'') ?m)))"
    by blast
  moreover have "length (lit ''pong'') = 4" by (simp add: lit_def)
  moreover have "lit ''   true'' = lit ''   '' @ lit ''true''" by (simp add: lit_append [symmetric])
  ultimately show ?thesis by (intro exI [of _ w]) simp
qed

section \<open>Ages\<close>

text \<open>
  Ages lose less than a minute: under an hour the seconds can be computed back from the
  text; from an hour on the hours and minutes are those of the age rounded down.
\<close>

theorem human_age_reads:
  "(unat secs < 60 \<and> human_age secs = dec (unat secs) @ lit ''s'')
   \<or> (\<exists>m s. 1 \<le> m \<and> m < 60 \<and> s < 60 \<and> unat secs = 60 * m + s \<and> human_age secs = dec m @ lit ''m'' @ dec s @ lit ''s'')
   \<or> (\<exists>h m. 1 \<le> h \<and> m < 60 \<and> 3600 * h + 60 * m \<le> unat secs \<and> unat secs < 3600 * h + 60 * m + 60
        \<and> human_age secs = dec h @ lit ''h'' @ dec m @ lit ''m'')"
proof -
  define n where "n = unat secs"
  have text_eq: "human_age secs = (if n < 60 then dec n @ lit ''s''
      else if n < 3600 then dec (n div 60) @ lit ''m'' @ dec (n mod 60) @ lit ''s''
      else dec (n div 3600) @ lit ''h'' @ dec (n mod 3600 div 60) @ lit ''m'')"
    by (simp only: human_age_def Let_def n_def)
  consider "n < 60" | "60 \<le> n" "n < 3600" | "3600 \<le> n" by linarith
  then show ?thesis
  proof cases
    case 1
    then show ?thesis using text_eq by (simp add: n_def)
  next
    case 2
    then have "1 \<le> n div 60" "n div 60 < 60" "n mod 60 < 60" by linarith+
    moreover have "n = 60 * (n div 60) + n mod 60" by simp
    moreover have "human_age secs = dec (n div 60) @ lit ''m'' @ dec (n mod 60) @ lit ''s''" using 2 text_eq by simp
    ultimately show ?thesis unfolding n_def by blast
  next
    case 3
    define q where "q = n mod 3600"
    have "1 \<le> n div 3600" "q < 3600" using 3 unfolding q_def by linarith+
    moreover have "n = 3600 * (n div 3600) + q" unfolding q_def by simp
    moreover have "q div 60 < 60" "60 * (q div 60) \<le> q" "q < 60 * (q div 60) + 60" using \<open>q < 3600\<close> by linarith+
    ultimately have "1 \<le> n div 3600 \<and> q div 60 < 60 \<and> 3600 * (n div 3600) + 60 * (q div 60) \<le> n
        \<and> n < 3600 * (n div 3600) + 60 * (q div 60) + 60" by linarith
    moreover have "human_age secs = dec (n div 3600) @ lit ''h'' @ dec (q div 60) @ lit ''m''"
      using 3 text_eq by (simp add: q_def)
    ultimately show ?thesis unfolding n_def by blast
  qed
qed

end
