(* ===== verification/Bootstrap.thy ===== *)
theory Bootstrap
  imports Rust_Float Tor
begin

text \<open>
  \<open>BootstrapState\<close> of \<open>tor.rs\<close>: the cell through which the polling task passes arti's
  bootstrap status to the control socket, with the progress kept in per mille.
\<close>

section \<open>The cell\<close>

datatype f32 = NaN32 | Inf32 (negative: bool) | F32 rat

record bootstrap_state =
  ready :: bool
  frac_permille :: u32
  blocked :: "rstr option"

record bootstrap_snapshot =
  snap_ready :: bool
  snap_fraction :: f32
  snap_blocked :: "rstr option"

definition new_bootstrap :: bootstrap_state where
  "new_bootstrap = \<lparr>ready = False, frac_permille = 0, blocked = None\<rparr>"

text \<open>\<open>clamp(0.0, 1.0)\<close>, the product with \<open>1000.0\<close> and the saturating cast to \<open>u32\<close>.\<close>

fun clamp01 :: "f32 \<Rightarrow> f32" where
  "clamp01 NaN32 = NaN32"
| "clamp01 (Inf32 neg) = (if neg then F32 0 else F32 1)"
| "clamp01 (F32 x) = (if x < 0 then F32 0 else if 1 < x then F32 1 else F32 x)"

fun mul32 :: "f32 \<Rightarrow> rat \<Rightarrow> f32" where
  "mul32 (F32 x) y = F32 (fl32 (x * y))"
| "mul32 v y = v"

fun f32_to_u32 :: "f32 \<Rightarrow> u32" where
  "f32_to_u32 NaN32 = 0"
| "f32_to_u32 (Inf32 neg) = (if neg then 0 else of_nat (2 ^ 32 - 1))"
| "f32_to_u32 (F32 x) = of_nat (min (2 ^ 32 - 1) (nat \<lfloor>x\<rfloor>))"

definition bootstrap_store :: "bootstrap_snapshot \<Rightarrow> bootstrap_state \<Rightarrow> bootstrap_state" where
  "bootstrap_store s b =
     b\<lparr>ready := snap_ready s, frac_permille := f32_to_u32 (mul32 (clamp01 (snap_fraction s)) 1000),
       blocked := snap_blocked s\<rparr>"

definition bootstrap_read :: "bootstrap_state \<Rightarrow> bootstrap_snapshot" where
  "bootstrap_read b =
     \<lparr>snap_ready = ready b, snap_fraction = F32 (fl32 (fl32 (of_nat (unat (frac_permille b))) / 1000)),
      snap_blocked = blocked b\<rparr>"

text \<open>What arti reports is copied field by field.\<close>

record 'b arti_status =
  ready_for_traffic :: bool
  as_frac :: f32
  blocked_by :: "'b option"

definition bootstrap_status :: "('b \<Rightarrow> rstr) \<Rightarrow> 'b arti_status \<Rightarrow> bootstrap_snapshot" where
  "bootstrap_status message s =
     \<lparr>snap_ready = ready_for_traffic s, snap_fraction = as_frac s,
      snap_blocked = map_option message (blocked_by s)\<rparr>"

section \<open>Accuracy\<close>

lemma unit32_small:
  assumes "0 < y" and "y \<le> 1000"
  shows "unit_at 24 (-126) y \<le> 1 / 2 ^ 14" and "\<exists>n::int. 1000 = of_int n * unit_at 24 (-126) y"
    and "\<exists>n::int. of_nat m = of_int n * unit_at 24 (-126) y"
proof -
  have "y < 2 powi (10::int)" using assms(2) by simp
  then have e: "binexp y < 10" by (rule binexp_less [OF assms(1)])
  define k where "k = nat (23 - max (binexp y) (-126))"
  have "max (binexp y) (-126) + 1 - int 24 = - int k" using e by (simp add: k_def)
  then have u: "unit_at 24 (-126) y = inverse (2 ^ k)"
    by (simp add: unit_at_def power_int_minus)
  have "14 \<le> k" using e by (simp add: k_def)
  then have "(2::rat) ^ 14 \<le> 2 ^ k" by (rule power_increasing) simp
  then show "unit_at 24 (-126) y \<le> 1 / 2 ^ 14" by (simp add: u inverse_eq_divide field_simps)
  show "\<exists>n::int. 1000 = of_int n * unit_at 24 (-126) y"
    by (rule exI [of _ "1000 * 2 ^ k"]) (simp add: u)
  show "\<exists>n::int. of_nat m = of_int n * unit_at 24 (-126) y"
    by (rule exI [of _ "int m * 2 ^ k"]) (simp add: u)
qed

lemma fl32_small_nat:
  assumes "n \<le> 1000"
  shows "fl32 (of_nat n) = of_nat n"
proof (cases "n = 0")
  case False
  then have "0 < (of_nat n :: rat)" "(of_nat n :: rat) \<le> 1000"
    using assms by (simp_all add: of_nat_le_iff [of n 1000, where ?'a = rat, simplified])
  then obtain k where "of_nat n = of_int k * unit_at 24 (-126) (of_nat n :: rat)"
    using unit32_small(3) by blast
  then show ?thesis using fl_exact [of "of_nat n" k 24 "-126"] by (simp add: fl32_def)
qed (simp add: fl32_def)

lemma fl32_thousand:
  assumes "0 \<le> y" and "y \<le> 1000"
  shows "0 \<le> fl32 y" and "fl32 y \<le> 1000" and "\<bar>fl32 y - y\<bar> \<le> 1 / 2 ^ 15"
proof -
  show "0 \<le> fl32 y" using fl_nonneg assms(1) by (simp add: fl32_def)
  show "fl32 y \<le> 1000"
  proof (cases "y = 0")
    case False
    with assms obtain n where "1000 = of_int n * unit_at 24 (-126) y" using unit32_small(2) [of y] by auto
    with fl_le [OF assms(2)] show ?thesis by (simp add: fl32_def)
  qed (simp add: fl32_def)
  show "\<bar>fl32 y - y\<bar> \<le> 1 / 2 ^ 15"
  proof (cases "y = 0")
    case False
    with assms fl_error [of y 24 "-126"] unit32_small(1) [of y] show ?thesis by (simp add: fl32_def)
  qed (simp add: fl32_def)
qed

definition clamped :: "rat \<Rightarrow> rat" where
  "clamped x = (if x < 0 then 0 else if 1 < x then 1 else x)"

lemma permille_value:
  "unat (f32_to_u32 (mul32 (clamp01 (F32 x)) 1000)) = nat \<lfloor>fl32 (clamped x * 1000)\<rfloor>"
  "nat \<lfloor>fl32 (clamped x * 1000)\<rfloor> \<le> 1000"
proof -
  have "0 \<le> clamped x * 1000" "clamped x * 1000 \<le> 1000" by (simp_all add: clamped_def)
  then have b: "fl32 (clamped x * 1000) \<le> 1000" by (rule fl32_thousand(2))
  then show le: "nat \<lfloor>fl32 (clamped x * 1000)\<rfloor> \<le> 1000" by (simp add: nat_le_iff floor_le_iff)
  have "mul32 (clamp01 (F32 x)) 1000 = F32 (fl32 (clamped x * 1000))" by (simp add: clamped_def)
  moreover have "unat (of_nat n :: u32) = n" if "n \<le> 1000" for n
    using that by (simp add: unsigned_of_nat take_bit_nat_eq_self)
  ultimately show "unat (f32_to_u32 (mul32 (clamp01 (F32 x)) 1000)) = nat \<lfloor>fl32 (clamped x * 1000)\<rfloor>"
    using le by (simp add: min_def)
qed

lemma fl32_1000: "fl32 1000 = 1000"
  using unit32_small(2) [of 1000] fl_exact [of 1000 _ 24 "-126"] by (auto simp: fl32_def)

lemma bootstrap_store_progress:
  "unat (frac_permille (bootstrap_store s b)) \<le> 1000
   \<and> (\<forall>x. snap_fraction s = F32 x \<longrightarrow>
        of_nat (unat (frac_permille (bootstrap_store s b))) \<le> clamped x * 1000 + 1 / 2 ^ 15
        \<and> clamped x * 1000 < of_nat (unat (frac_permille (bootstrap_store s b))) + 1 + 1 / 2 ^ 15)
   \<and> (\<forall>x. snap_fraction s = F32 x \<longrightarrow> 1 \<le> x \<longrightarrow> frac_permille (bootstrap_store s b) = 1000)
   \<and> snap_ready (bootstrap_read (bootstrap_store s b)) = snap_ready s
   \<and> snap_blocked (bootstrap_read (bootstrap_store s b)) = snap_blocked s"
proof (intro conjI allI impI)
  have thousand: "(of_nat 1000 :: u32) = 1000" by simp
  show "unat (frac_permille (bootstrap_store s b)) \<le> 1000"
  proof (cases "snap_fraction s")
    case (Inf32 neg)
    have "fl32 1000 \<le> 1000" "0 \<le> fl32 1000" using fl32_thousand [of 1000] by simp_all
    with permille_value [of 1] permille_value [of 0] Inf32 show ?thesis
      by (cases neg) (simp_all add: bootstrap_store_def)
  next
    case (F32 x)
    with permille_value [of x] show ?thesis by (simp add: bootstrap_store_def)
  qed (simp add: bootstrap_store_def)
next
  fix x
  assume "snap_fraction s = F32 x"
  then have p: "unat (frac_permille (bootstrap_store s b)) = nat \<lfloor>fl32 (clamped x * 1000)\<rfloor>"
    using permille_value(1) [of x] by (simp add: bootstrap_store_def)
  have c: "0 \<le> clamped x * 1000" "clamped x * 1000 \<le> 1000" by (simp_all add: clamped_def)
  note f = fl32_thousand [OF c]
  have n: "(of_nat (nat \<lfloor>fl32 (clamped x * 1000)\<rfloor>) :: rat) = of_int \<lfloor>fl32 (clamped x * 1000)\<rfloor>"
    using f(1) by simp
  have fl: "of_int \<lfloor>fl32 (clamped x * 1000)\<rfloor> \<le> fl32 (clamped x * 1000)"
    "fl32 (clamped x * 1000) < of_int \<lfloor>fl32 (clamped x * 1000)\<rfloor> + 1" by linarith+
  show "of_nat (unat (frac_permille (bootstrap_store s b))) \<le> clamped x * 1000 + 1 / 2 ^ 15"
    unfolding p n using fl f(3) by linarith
  show "clamped x * 1000 < of_nat (unat (frac_permille (bootstrap_store s b))) + 1 + 1 / 2 ^ 15"
    unfolding p n using fl f(3) by linarith
next
  fix x
  assume "snap_fraction s = F32 x" "1 \<le> x"
  then have "unat (frac_permille (bootstrap_store s b)) = 1000"
    using permille_value(1) [of x] by (auto simp: bootstrap_store_def clamped_def fl32_1000 split: if_splits)
  then show "frac_permille (bootstrap_store s b) = 1000"
    by (simp add: word_unat_eq_iff)
qed (simp_all add: bootstrap_store_def bootstrap_read_def)

text \<open>
  C37. The stored progress is always within 0 and 1000 per mille, whatever arti reports (not
  a number and the infinities included); for a finite fraction it is the per-mille value of
  the clamped fraction rounded down, up to \<open>2\<^sup>-\<^sup>1\<^sup>5\<close> of rounding, and a completed bootstrap
  is stored as exactly 1000; readiness and the reason are passed on unchanged.
\<close>

theorem bootstrap_progress:
  "unat (frac_permille (bootstrap_store s b)) \<le> 1000
   \<and> (\<forall>x. snap_fraction s = F32 x \<longrightarrow>
        of_nat (unat (frac_permille (bootstrap_store s b))) \<le> clamped x * 1000 + 1 / 2 ^ 15
        \<and> clamped x * 1000 < of_nat (unat (frac_permille (bootstrap_store s b))) + 1 + 1 / 2 ^ 15)
   \<and> (\<forall>x. snap_fraction s = F32 x \<longrightarrow> 1 \<le> x \<longrightarrow> frac_permille (bootstrap_store s b) = 1000)
   \<and> snap_ready (bootstrap_read (bootstrap_store s b)) = snap_ready s
   \<and> snap_blocked (bootstrap_read (bootstrap_store s b)) = snap_blocked s"
  by (rule bootstrap_store_progress)

definition example_snapshot :: bootstrap_snapshot where
  "example_snapshot = \<lparr>snap_ready = False, snap_fraction = F32 (1 / 2), snap_blocked = None\<rparr>"

theorem bootstrap_progress_witness:
  "unat (frac_permille (bootstrap_store example_snapshot new_bootstrap)) \<in> {499, 500}"
proof -
  let ?n = "unat (frac_permille (bootstrap_store example_snapshot new_bootstrap))"
  have "snap_fraction example_snapshot = F32 (1 / 2)" by (simp add: example_snapshot_def)
  then have "of_nat ?n \<le> clamped (1 / 2) * 1000 + 1 / 2 ^ 15" "clamped (1 / 2) * 1000 < of_nat ?n + 1 + 1 / 2 ^ 15"
    using bootstrap_progress [of example_snapshot new_bootstrap] by blast+
  then have "(of_nat ?n :: rat) < of_nat 501" "(of_nat 498 :: rat) < of_nat ?n" by (simp_all add: clamped_def)
  then have "?n < 501" "498 < ?n" by (simp_all only: of_nat_less_iff)
  then show ?thesis by auto
qed

end
