(* ===== verification/Control.thy ===== *)
theory Control
  imports Json Bootstrap Socks_Server
begin

text \<open>
  \<open>control.rs\<close>: one command per connection, one line of JSON back. The JSON encoder is the
  argument \<open>to_string\<close>, the outcome of raising the signal the argument \<open>raised\<close>; \<open>printable\<close>
  says which non-ASCII code points \<open>Debug\<close> leaves as they are.
\<close>

section \<open>Replies\<close>

datatype reply = ROk json | RError rstr

definition framed :: "string \<Rightarrow> (rstr \<times> json) list \<Rightarrow> (rstr \<times> json) list" where
  "framed tag m = (lit ''status'', JStr (lit tag)) # m"

text \<open>
  The derived serialisation with an internal tag writes the tag and then the entries of the
  value, which has to be an object (or null).
\<close>

fun reply_entries :: "reply \<Rightarrow> error + (rstr \<times> json) list" where
  "reply_entries (ROk (JObj m)) = Inr (framed ''ok'' m)"
| "reply_entries (ROk JNull) = Inr (framed ''ok'' [])"
| "reply_entries (ROk v) = Inl [Foreign (lit ''cannot serialize tagged newtype variant'')]"
| "reply_entries (RError msg) = Inr (framed ''error'' [(lit ''message'', JStr msg)])"

section \<open>Commands\<close>

record control_state =
  cs_started :: nat
  cs_socks_listen :: socket_addr
  cs_bootstrap :: bootstrap_state

definition json_u64 :: "u64 \<Rightarrow> json" where
  "json_u64 n = JNum (PosInt n)"

fun json_f32 :: "f32 \<Rightarrow> json" where
  "json_f32 (F32 x) = JNum (Float x)"
| "json_f32 _ = JNull"

definition metrics_value :: "metrics_snapshot \<Rightarrow> json" where
  "metrics_value m = json_obj
     [(lit ''connects_total'', json_u64 (snap_connects_total m)),
      (lit ''connects_ok'', json_u64 (snap_connects_ok m)),
      (lit ''connects_failed'', json_u64 (snap_connects_failed m)),
      (lit ''bytes_to_upstream'', json_u64 (snap_bytes_to_upstream m)),
      (lit ''bytes_to_client'', json_u64 (snap_bytes_to_client m))]"

definition row_value :: "stream_snapshot \<Rightarrow> json" where
  "row_value r = json_obj
     [(lit ''id'', json_u64 (row_id r)),
      (lit ''peer'', JStr (row_peer r)),
      (lit ''target'', JStr (row_target r)),
      (lit ''isolation'', json_opt_str (row_isolation r)),
      (lit ''age_secs'', json_u64 (row_age_secs r)),
      (lit ''bytes_to_upstream'', json_u64 (row_to_upstream r)),
      (lit ''bytes_to_client'', json_u64 (row_to_client r))]"

definition status_value :: "control_state \<Rightarrow> nat \<Rightarrow> json" where
  "status_value cs now =
     (let bs = bootstrap_read (cs_bootstrap cs)
      in json_obj
        [(lit ''uptime_secs'', json_u64 (of_nat ((now - cs_started cs) div 10 ^ 9))),
         (lit ''socks_listen'', JStr (socket_display (cs_socks_listen cs))),
         (lit ''tor'', json_obj
           [(lit ''ready'', JBool (snap_ready bs)),
            (lit ''fraction'', json_f32 (snap_fraction bs)),
            (lit ''blocked'', json_opt_str (snap_blocked bs))])])"

definition stats_value :: "'x shared_scheme \<Rightarrow> json" where
  "stats_value w =
     (let v = metrics_value (metrics_read (totals w))
      in case as_object v of
           Some m \<Rightarrow> JObj (map_insert (lit ''streams_active'') (json_u64 (of_nat (registry_len (streams w)))) m)
         | None \<Rightarrow> v)"

text \<open>\<open>{:?}\<close> of a string.\<close>

definition escape_char :: "(rchar \<Rightarrow> bool) \<Rightarrow> rchar \<Rightarrow> rstr" where
  "escape_char printable c =
     (if c = 0 then [92, 48]
      else if c = 9 then [92, 116]
      else if c = 10 then [92, 110]
      else if c = 13 then [92, 114]
      else if c = 34 \<or> c = 92 then [92, c]
      else if (if c < 128 then 32 \<le> c \<and> c < 127 else printable c) then [c]
      else [92, 117, 123] @ hex c @ [125])"

definition str_debug :: "(rchar \<Rightarrow> bool) \<Rightarrow> rstr \<Rightarrow> rstr" where
  "str_debug printable s = [34] @ concat (map (escape_char printable) s) @ [34]"

definition dispatch ::
  "(rchar \<Rightarrow> bool) \<Rightarrow> rstr + unit \<Rightarrow> rstr \<Rightarrow> control_state \<Rightarrow> ('tok, 'client) world \<Rightarrow> reply" where
  "dispatch printable raised cmd cs w =
     (if cmd = lit ''ping'' then ROk (json_obj [(lit ''pong'', JBool True)])
      else if cmd = lit ''status'' then ROk (status_value cs (clock w))
      else if cmd = lit ''stats'' then ROk (stats_value w)
      else if cmd = lit ''streams'' then
        ROk (json_obj [(lit ''streams'', JArr (map row_value (registry_snapshot (clock w) (streams w))))])
      else if cmd = lit ''reload'' then
        (case raised of
           Inr _ \<Rightarrow> ROk (json_obj [(lit ''reload'', JStr (lit ''signalled''))])
         | Inl e \<Rightarrow> RError (lit ''raise SIGHUP: '' @ e))
      else RError (lit ''unknown command '' @ str_debug printable cmd))"

section \<open>A connection\<close>

text \<open>
  \<open>read_line\<close>: up to the first line feed, or the end of the input if there is none.
\<close>

definition first_line :: "u8 list \<Rightarrow> u8 list" where
  "first_line bs = takeWhile (\<lambda>b. b \<noteq> 10) bs @ take 1 (dropWhile (\<lambda>b. b \<noteq> 10) bs)"

definition invalid_utf8 :: io_error where
  "invalid_utf8 = IoError (OtherKind 1) (lit ''stream did not contain valid UTF-8'')"

definition read_line :: "io_error + u8 list \<Rightarrow> io_error + rstr" where
  "read_line input =
     (case input of
        Inl e \<Rightarrow> Inl e
      | Inr bs \<Rightarrow> (case from_utf8 (first_line bs) of Some s \<Rightarrow> Inr s | None \<Rightarrow> Inl invalid_utf8))"

definition control_handle ::
  "(json \<Rightarrow> rstr) \<Rightarrow> (u8 list \<Rightarrow> io_error + unit) \<Rightarrow> (rchar \<Rightarrow> bool) \<Rightarrow> rstr + unit \<Rightarrow> io_error + u8 list \<Rightarrow>
   control_state \<Rightarrow> ('tok, 'client) world \<Rightarrow> error + u8 list" where
  "control_handle to_string write printable raised input cs w =
     (case read_line input of
        Inl e \<Rightarrow> Inl [Text (lit ''reading command''), IoCause e]
      | Inr line \<Rightarrow>
          (case reply_entries (dispatch printable raised (trim line) cs w) of
             Inl e \<Rightarrow> Inl (Text (lit ''encoding reply'') # e)
           | Inr m \<Rightarrow>
               (let out = utf8_encode (to_string (JObj m) @ [10])
                in case write out of
                     Inl e \<Rightarrow> Inl [Text (lit ''writing reply''), IoCause e]
                   | Inr _ \<Rightarrow> Inr out)))"

text \<open>
  The server removes what is at its path, whether or not that succeeds, binds a socket there,
  and spawns a task per connection; unlike the SOCKS server it ends with the first failed
  accept. The calls on the file system are arguments, for the process that makes them.
\<close>

record 'f socket_files =
  remove_file :: "rstr \<Rightarrow> 'f \<Rightarrow> (io_error + unit) \<times> 'f"
  bind_socket :: "rstr \<Rightarrow> 'f \<Rightarrow> (io_error + unit) \<times> 'f"

definition bind_result :: "rstr \<Rightarrow> io_error + unit \<Rightarrow> error + unit" where
  "bind_result path r =
     (case r of Inl e \<Rightarrow> Inl [Text (lit ''binding control socket '' @ path), IoCause e] | Inr u \<Rightarrow> Inr u)"

definition control_bind :: "'f socket_files \<Rightarrow> rstr \<Rightarrow> 'f \<Rightarrow> (error + unit) \<times> 'f" where
  "control_bind fs path f =
     (let (_, f1) = remove_file fs path f; (r, f2) = bind_socket fs path f1
      in (bind_result path r, f2))"

definition control_listening_log :: "rstr \<Rightarrow> event" where
  "control_listening_log path = Logged SevInfo (lit ''control socket listening'') [SocketField path]"

text \<open>Its run over the accepts so far: the connections spawned, and how it ended if it did.\<close>

fun control_accepts :: "(error + 's) list \<Rightarrow> 's list \<times> error option" where
  "control_accepts [] = ([], None)"
| "control_accepts (Inl e # rest) = ([], Some (Text (lit ''control accept'') # e))"
| "control_accepts (Inr s # rest) = (case control_accepts rest of (ss, r) \<Rightarrow> (s # ss, r))"

definition control_serve ::
  "'f socket_files \<Rightarrow> rstr \<Rightarrow> 'f \<Rightarrow> (error + 's) list \<Rightarrow> event list \<times> ('s list \<times> error option) \<times> 'f" where
  "control_serve fs path f accepts =
     (case control_bind fs path f of
        (Inl e, f') \<Rightarrow> ([], ([], Some e), f')
      | (Inr _, f') \<Rightarrow> ([control_listening_log path], control_accepts accepts, f'))"

text \<open>What the task of a connection logs.\<close>

definition control_log :: "error + 'a \<Rightarrow> event list" where
  "control_log r = (case r of
      Inl e \<Rightarrow> [Logged SevWarn (lit ''control connection failed'') [error_field e]] | Inr _ \<Rightarrow> [])"

section \<open>The client half\<close>

text \<open>
  \<open>query\<close>: the peer, if it can be reached, answers the bytes written with the bytes of its
  reply, read to the end.
\<close>

definition query :: "io_error + (u8 list \<Rightarrow> io_error + u8 list) \<Rightarrow> rstr \<Rightarrow> io_error + rstr" where
  "query peer command =
     (case peer of
        Inl e \<Rightarrow> Inl e
      | Inr answer \<Rightarrow>
          (case answer (utf8_encode (command @ [10])) of
             Inl e \<Rightarrow> Inl e
           | Inr bs \<Rightarrow> (case from_utf8 bs of Some s \<Rightarrow> Inr s | None \<Rightarrow> Inl invalid_utf8)))"

end
