(* ===== verification/Control_Socket.thy ===== *)
theory Control_Socket
  imports Control
begin

text \<open>
  The path of the control socket: what the server of \<open>control.rs\<close> does to the file system before
  it accepts, against the contract of \<open>unlink\<close> and \<open>bind\<close> (locale \<open>socket_directory\<close>), and a
  directory that satisfies it.
\<close>

section \<open>The contract\<close>

text \<open>
  \<open>entry p f\<close> is what is at the path \<open>p\<close>; \<open>changeable p f\<close> says that the process may remove and
  create an entry there (the directory is writable and the entry is not a directory itself);
  \<open>own\<close> is a socket of this process. A path in use cannot be bound.
\<close>

locale socket_directory =
  fixes fs :: "'f socket_files"
    and entry :: "rstr \<Rightarrow> 'f \<Rightarrow> 'n option"
    and changeable :: "rstr \<Rightarrow> 'f \<Rightarrow> bool"
    and own :: 'n
  assumes remove_ok: "changeable p f \<Longrightarrow> entry p f \<noteq> None \<Longrightarrow>
      \<exists>f'. remove_file fs p f = (Inr (), f') \<and> entry p f' = None \<and> changeable p f'"
    and remove_err: "remove_file fs p f = (Inl e, f') \<Longrightarrow> f' = f"
    and remove_none: "entry p f = None \<Longrightarrow> \<exists>e. remove_file fs p f = (Inl e, f)"
    and remove_other: "remove_file fs p f = (r, f') \<Longrightarrow> q \<noteq> p \<Longrightarrow> entry q f' = entry q f"
    and bind_ok: "changeable p f \<Longrightarrow> entry p f = None \<Longrightarrow>
      \<exists>f'. bind_socket fs p f = (Inr (), f') \<and> entry p f' = Some own"
    and bind_taken: "entry p f \<noteq> None \<Longrightarrow> \<exists>e. bind_socket fs p f = (Inl e, f)"
    and bind_other: "bind_socket fs p f = (r, f') \<Longrightarrow> q \<noteq> p \<Longrightarrow> entry q f' = entry q f"
begin

lemma bind_takes_path:
  assumes "changeable path f"
  shows "\<exists>f'. control_bind fs path f = (Inr (), f') \<and> entry path f' = Some own \<and> (\<forall>q. q \<noteq> path \<longrightarrow> entry q f' = entry q f)"
proof -
  obtain r f1 where f1: "remove_file fs path f = (r, f1)" by fastforce
  have "entry path f1 = None \<and> changeable path f1"
    using remove_ok [OF assms] remove_none [of path f] f1 assms by (cases "entry path f = None") auto
  then obtain f2 where f2: "bind_socket fs path f1 = (Inr (), f2)" "entry path f2 = Some own" using bind_ok by blast
  have "control_bind fs path f = (Inr (), f2)" by (simp add: control_bind_def f1 f2 bind_result_def)
  moreover have "entry q f2 = entry q f" if "q \<noteq> path" for q
    using remove_other [OF f1 that] bind_other [OF f2(1) that] by simp
  ultimately show ?thesis using f2(2) by blast
qed

lemma bind_blocked:
  assumes "remove_file fs path f = (Inl x, f1)" and "entry path f \<noteq> None"
  shows "\<exists>e. control_bind fs path f = (Inl [Text (lit ''binding control socket '' @ path), IoCause e], f)"
proof -
  have "f1 = f" by (rule remove_err [OF assms(1)])
  moreover obtain e where "bind_socket fs path f = (Inl e, f)" using bind_taken [OF assms(2)] by blast
  ultimately show ?thesis using assms(1) by (simp add: control_bind_def bind_result_def)
qed

end

section \<open>A directory\<close>

text \<open>
  One directory with sockets, known by the process that bound them, plain files and
  directories, seen by the process \<open>pid\<close>.
\<close>

datatype node = SocketOf nat | PlainFile | Subdirectory

record directory =
  entries :: "(rstr \<times> node) list"
  writable :: bool

definition dir_entry :: "rstr \<Rightarrow> directory \<Rightarrow> node option" where
  "dir_entry p d = map_of (entries d) p"

definition dir_changeable :: "rstr \<Rightarrow> directory \<Rightarrow> bool" where
  "dir_changeable p d \<longleftrightarrow> writable d \<and> dir_entry p d \<noteq> Some Subdirectory"

definition dir_remove :: "rstr \<Rightarrow> directory \<Rightarrow> (io_error + unit) \<times> directory" where
  "dir_remove p d =
     (if dir_entry p d = None then (Inl (IoError NotFound p), d)
      else if dir_changeable p d then (Inr (), d\<lparr>entries := filter (\<lambda>kv. fst kv \<noteq> p) (entries d)\<rparr>)
      else (Inl (IoError (OtherKind 13) p), d))"

definition dir_bind :: "nat \<Rightarrow> rstr \<Rightarrow> directory \<Rightarrow> (io_error + unit) \<times> directory" where
  "dir_bind pid p d =
     (if dir_entry p d \<noteq> None then (Inl (IoError (OtherKind 98) p), d)
      else if writable d then (Inr (), d\<lparr>entries := (p, SocketOf pid) # entries d\<rparr>)
      else (Inl (IoError (OtherKind 13) p), d))"

definition dir_files :: "nat \<Rightarrow> directory socket_files" where
  "dir_files pid = \<lparr>remove_file = dir_remove, bind_socket = dir_bind pid\<rparr>"

lemma map_of_filter_key: "map_of (filter (\<lambda>kv. fst kv \<noteq> p) m) q = (if q = p then None else map_of m q)"
  by (induction m) auto

interpretation dir: socket_directory "dir_files pid" dir_entry dir_changeable "SocketOf pid"
  by unfold_locales
    (auto simp: dir_files_def dir_remove_def dir_bind_def dir_changeable_def dir_entry_def map_of_filter_key
      split: if_splits)

text \<open>
  C35. The control socket always gets its path: whatever is there, a stale socket of a previous run,
  the socket of another daemon or an unrelated file, if the process may change the entry then
  the server comes up on it, the path leads to this process, and no other path is touched. If
  the entry cannot be removed the server fails with an error that names the path and nothing
  has changed.
\<close>

theorem control_takes_path:
  assumes "socket_directory fs entry changeable own"
  shows "(changeable path f \<longrightarrow>
      (\<exists>f'. control_serve fs path f accepts = ([control_listening_log path], control_accepts accepts, f')
         \<and> entry path f' = Some own \<and> (\<forall>q. q \<noteq> path \<longrightarrow> entry q f' = entry q f)))
    \<and> (entry path f \<noteq> None \<longrightarrow> remove_file fs path f = (Inl x, f1) \<longrightarrow>
      (\<exists>e. control_serve fs path f accepts
         = ([], ([], Some [Text (lit ''binding control socket '' @ path), IoCause e]), f)))"
proof (intro conjI impI)
  assume "changeable path f"
  from socket_directory.bind_takes_path [OF assms this] show
    "\<exists>f'. control_serve fs path f accepts = ([control_listening_log path], control_accepts accepts, f')
       \<and> entry path f' = Some own \<and> (\<forall>q. q \<noteq> path \<longrightarrow> entry q f' = entry q f)"
    by (auto simp: control_serve_def)
next
  assume "entry path f \<noteq> None" and "remove_file fs path f = (Inl x, f1)"
  from socket_directory.bind_blocked [OF assms this(2,1)] show
    "\<exists>e. control_serve fs path f accepts = ([], ([], Some [Text (lit ''binding control socket '' @ path), IoCause e]), f)"
    by (auto simp: control_serve_def)
qed

text \<open>A second daemon on the path of a running one.\<close>

definition shared_run_dir :: directory where
  "shared_run_dir = \<lparr>entries = [(lit ''/run/tord.sock'', SocketOf 1)], writable = True\<rparr>"

theorem control_takes_path_witness:
  "\<exists>d'. control_serve (dir_files 2) (lit ''/run/tord.sock'') shared_run_dir ([] :: (error + unit) list)
       = ([control_listening_log (lit ''/run/tord.sock'')], ([], None), d')
     \<and> dir_entry (lit ''/run/tord.sock'') d' = Some (SocketOf 2)"
proof -
  have "dir_changeable (lit ''/run/tord.sock'') shared_run_dir"
    by (simp add: dir_changeable_def dir_entry_def shared_run_dir_def)
  with control_takes_path [OF dir.socket_directory_axioms [of 2], THEN conjunct1, rule_format,
      of "lit ''/run/tord.sock''" shared_run_dir "[] :: (error + unit) list"]
  obtain d' where "control_serve (dir_files 2) (lit ''/run/tord.sock'') shared_run_dir ([] :: (error + unit) list)
       = ([control_listening_log (lit ''/run/tord.sock'')], control_accepts [], d')"
     "dir_entry (lit ''/run/tord.sock'') d' = Some (SocketOf 2)" by blast
  then show ?thesis unfolding control_accepts.simps by blast
qed

end
