(* ===== verification/Net_Provider.thy ===== *)
theory Net_Provider
  imports Async_Stream Net_Addr
begin

text \<open>
  \<open>runtime/net.rs\<close> and \<open>runtime/mod.rs\<close>, in both builds: the TCP provider handed to arti.
  The VCL library, the compatibility layer around its streams and arti's runtime are
  arguments.
\<close>

section \<open>The provider\<close>

definition CONNECT_TIMEOUT_SECS :: nat where
  "CONNECT_TIMEOUT_SECS = 10"

record 'r net_provider =
  reactor :: 'r
  bind_v4 :: "ipv4_addr option"
  bind_v6 :: "ipv6_addr option"

definition new_provider :: "'r \<Rightarrow> ipv4_addr option \<Rightarrow> ipv6_addr option \<Rightarrow> 'r net_provider" where
  "new_provider r v4 v6 = \<lparr>reactor = r, bind_v4 = v4, bind_v6 = v6\<rparr>"

text \<open>\<open>io::Error::other\<close>.\<close>

definition other_error :: "rstr \<Rightarrow> io_error" where
  "other_error e = IoError (OtherKind 0) e"

fun egress_source :: "'r net_provider \<Rightarrow> socket_addr \<Rightarrow> socket_addr option" where
  "egress_source p (SockV4 a port) = map_option (\<lambda>s. SockV4 s 0) (bind_v4 p)"
| "egress_source p (SockV6 a port flow scope) = map_option (\<lambda>s. SockV6 s 0 0 0) (bind_v6 p)"

definition connect_inner ::
  "(socket_addr \<Rightarrow> socket_addr option \<Rightarrow> 'r \<Rightarrow> nat \<Rightarrow> rstr + 'i) \<Rightarrow> 'r net_provider \<Rightarrow> socket_addr \<Rightarrow> io_error + 'i" where
  "connect_inner connect_async p addr =
     (case connect_async addr (egress_source p addr) (reactor p) CONNECT_TIMEOUT_SECS of
        Inl e \<Rightarrow> Inl (other_error e)
      | Inr i \<Rightarrow> Inr i)"

datatype 'i tord_stream = TordStream (inner: 'i)

definition provider_connect ::
  "('i \<Rightarrow> 'c) \<Rightarrow> (socket_addr \<Rightarrow> socket_addr option \<Rightarrow> 'r \<Rightarrow> nat \<Rightarrow> rstr + 'i) \<Rightarrow> 'r net_provider \<Rightarrow> socket_addr \<Rightarrow>
   io_error + 'c tord_stream" where
  "provider_connect wrap connect_async p addr =
     (case connect_inner connect_async p addr of
        Inl e \<Rightarrow> Inl e
      | Inr i \<Rightarrow> Inr (TordStream (wrap i)))"

text \<open>
  In the \<open>kernel-sockets\<close> build the provider has no fields and the system picks the source;
  an error of tokio is passed on as it is.
\<close>

datatype kernel_provider = KernelProvider

definition new_provider_kernel :: kernel_provider where
  "new_provider_kernel = KernelProvider"

definition default_provider_kernel :: kernel_provider where
  "default_provider_kernel = new_provider_kernel"

definition connect_inner_kernel ::
  "(socket_addr \<Rightarrow> io_error + 'i) \<Rightarrow> kernel_provider \<Rightarrow> socket_addr \<Rightarrow> io_error + 'i" where
  "connect_inner_kernel tcp_connect p addr = tcp_connect addr"

definition provider_connect_kernel ::
  "('i \<Rightarrow> 'c) \<Rightarrow> (socket_addr \<Rightarrow> io_error + 'i) \<Rightarrow> kernel_provider \<Rightarrow> socket_addr \<Rightarrow> io_error + 'c tord_stream" where
  "provider_connect_kernel wrap tcp_connect p addr =
     (case connect_inner_kernel tcp_connect p addr of
        Inl e \<Rightarrow> Inl e
      | Inr i \<Rightarrow> Inr (TordStream (wrap i)))"

text \<open>The listener type has no values.\<close>

definition provider_listen :: "'p \<Rightarrow> socket_addr \<Rightarrow> io_error + 'l" where
  "provider_listen p addr =
     Inl (IoError Unsupported (lit ''tord: inbound listening is not supported (Tor client only)''))"

section \<open>Its streams\<close>

text \<open>The poll methods of \<open>futures::io\<close> on the wrapped stream.\<close>

record 'c futures_ops =
  fpoll_read :: "nat \<Rightarrow> 'c \<Rightarrow> (io_error + u8 list) poll \<times> 'c"
  fpoll_write :: "u8 list \<Rightarrow> 'c \<Rightarrow> (io_error + nat) poll \<times> 'c"
  fpoll_flush :: "'c \<Rightarrow> (io_error + unit) poll \<times> 'c"
  fpoll_close :: "'c \<Rightarrow> (io_error + unit) poll \<times> 'c"

definition tord_poll_read ::
  "'c futures_ops \<Rightarrow> nat \<Rightarrow> 'c tord_stream \<Rightarrow> (io_error + u8 list) poll \<times> 'c tord_stream" where
  "tord_poll_read io n s = (case fpoll_read io n (inner s) of (r, c) \<Rightarrow> (r, TordStream c))"

definition tord_poll_write ::
  "'c futures_ops \<Rightarrow> u8 list \<Rightarrow> 'c tord_stream \<Rightarrow> (io_error + nat) poll \<times> 'c tord_stream" where
  "tord_poll_write io b s = (case fpoll_write io b (inner s) of (r, c) \<Rightarrow> (r, TordStream c))"

definition tord_poll_flush :: "'c futures_ops \<Rightarrow> 'c tord_stream \<Rightarrow> (io_error + unit) poll \<times> 'c tord_stream" where
  "tord_poll_flush io s = (case fpoll_flush io (inner s) of (r, c) \<Rightarrow> (r, TordStream c))"

definition tord_poll_close :: "'c futures_ops \<Rightarrow> 'c tord_stream \<Rightarrow> (io_error + unit) poll \<times> 'c tord_stream" where
  "tord_poll_close io s = (case fpoll_close io (inner s) of (r, c) \<Rightarrow> (r, TordStream c))"

section \<open>The runtime\<close>

definition build_runtime ::
  "error + 'base \<Rightarrow> ('base \<Rightarrow> 'r net_provider \<Rightarrow> 'rt) \<Rightarrow> 'r \<Rightarrow> ipv4_addr option \<Rightarrow> ipv6_addr option \<Rightarrow> error + 'rt" where
  "build_runtime current with_tcp_provider r v4 v6 =
     (case current of
        Inl e \<Rightarrow> Inl (Text (lit ''attaching to current tokio runtime'') # e)
      | Inr base \<Rightarrow> Inr (with_tcp_provider base (new_provider r v4 v6)))"

definition build_runtime_kernel :: "error + 'base \<Rightarrow> ('base \<Rightarrow> kernel_provider \<Rightarrow> 'rt) \<Rightarrow> error + 'rt" where
  "build_runtime_kernel current with_tcp_provider =
     (case current of
        Inl e \<Rightarrow> Inl (Text (lit ''attaching to current tokio runtime'') # e)
      | Inr base \<Rightarrow> Inr (with_tcp_provider base new_provider_kernel))"

section \<open>Whole conversations\<close>

text \<open>
  A schedule of poll calls on a provider stream, and the same schedule on the stream it
  wraps: what each call returned, and the stream after it.
\<close>

datatype stream_op = ReadOp nat | WriteOp "u8 list" | FlushOp | CloseOp

datatype stream_result =
    ReadResult "(io_error + u8 list) poll" | WriteResult "(io_error + nat) poll"
  | UnitResult "(io_error + unit) poll"

fun tord_run :: "'c futures_ops \<Rightarrow> stream_op list \<Rightarrow> 'c tord_stream \<Rightarrow> stream_result list \<times> 'c tord_stream" where
  "tord_run io [] s = ([], s)"
| "tord_run io (x # xs) s =
     (let (r, s1) = (case x of
          ReadOp n \<Rightarrow> map_prod ReadResult id (tord_poll_read io n s)
        | WriteOp b \<Rightarrow> map_prod WriteResult id (tord_poll_write io b s)
        | FlushOp \<Rightarrow> map_prod UnitResult id (tord_poll_flush io s)
        | CloseOp \<Rightarrow> map_prod UnitResult id (tord_poll_close io s));
          (rs, s2) = tord_run io xs s1
      in (r # rs, s2))"

fun inner_run :: "'c futures_ops \<Rightarrow> stream_op list \<Rightarrow> 'c \<Rightarrow> stream_result list \<times> 'c" where
  "inner_run io [] c = ([], c)"
| "inner_run io (x # xs) c =
     (let (r, c1) = (case x of
          ReadOp n \<Rightarrow> map_prod ReadResult id (fpoll_read io n c)
        | WriteOp b \<Rightarrow> map_prod WriteResult id (fpoll_write io b c)
        | FlushOp \<Rightarrow> map_prod UnitResult id (fpoll_flush io c)
        | CloseOp \<Rightarrow> map_prod UnitResult id (fpoll_close io c));
          (rs, c2) = inner_run io xs c1
      in (r # rs, c2))"

lemma tord_run_inner: "tord_run io xs s = map_prod id TordStream (inner_run io xs (inner s))"
proof (induction xs arbitrary: s)
  case Nil
  then show ?case by simp
next
  case (Cons x xs)
  then show ?case
    by (cases x) (simp_all add: tord_poll_read_def tord_poll_write_def tord_poll_flush_def
        tord_poll_close_def split: prod.split)
qed

text \<open>
  The streams given to arti are the provider's streams: any schedule of reads, writes,
  flushes and closes returns what it would return on the wrapped stream.
\<close>

theorem tord_stream_transparent:
  "fst (tord_run io ops (TordStream c)) = fst (inner_run io ops c)
   \<and> inner (snd (tord_run io ops (TordStream c))) = snd (inner_run io ops c)"
  by (simp add: tord_run_inner)

end
