(* ===== verification/Daemon.thy ===== *)
theory Daemon
  imports Control Format Net_Provider
begin

text \<open>
  \<open>main.rs\<close>: the command line, the start of the daemon, its background tasks and its end, in
  both builds. The argument parser, the YAML and JSON codecs, VCL, tokio and arti are
  arguments; what is printed and logged is a list of events.
\<close>

section \<open>The command line\<close>

definition DEFAULT_CONFIG_PATH :: rstr where
  "DEFAULT_CONFIG_PATH = lit ''/etc/tord/config.yaml''"

definition DEFAULT_SOCKET :: rstr where
  "DEFAULT_SOCKET = lit ''/run/tord.sock''"

datatype subcommand = Query rstr output_format

record cli =
  subcommand :: "subcommand option"
  config_path :: rstr
  control_socket :: rstr

text \<open>What was given on the command line; the rest has defaults.\<close>

record raw_args =
  given_query :: "(rstr option \<times> output_format option) option"
  given_config :: "rstr option"
  given_socket :: "rstr option"

definition cli_of :: "raw_args \<Rightarrow> cli" where
  "cli_of a =
     \<lparr>subcommand = map_option (\<lambda>(c, f). Query (or_default c (lit ''status'')) (or_default f TableOutput)) (given_query a),
      config_path = or_default (given_config a) DEFAULT_CONFIG_PATH,
      control_socket = or_default (given_socket a) DEFAULT_SOCKET\<rparr>"

section \<open>Setting the daemon up\<close>

text \<open>
  The program is built for one of two transports; the \<open>kernel-sockets\<close> build has no VCL and its
  provider no fields.
\<close>

datatype build = Vcl | KernelSockets

text \<open>
  What the system and the libraries answer to the calls made before anything is served.
\<close>

record ('r, 'base, 'rt, 'cfg, 'client) platform =
  vcl_init :: "error + unit"
  tokio_build :: "error + unit"
  vcl_reactor :: "error + 'r"
  tokio_current :: "error + 'base"
  with_tcp_provider :: "'base \<Rightarrow> 'r net_provider \<Rightarrow> 'rt"
  with_kernel_provider :: "'base \<Rightarrow> kernel_provider \<Rightarrow> 'rt"
  arti_build :: "rstr \<Rightarrow> rstr \<Rightarrow> error + 'cfg"
  arti_create :: "'rt \<Rightarrow> 'cfg \<Rightarrow> error + 'client"
  install_sighup :: "error + unit"
  install_sigterm :: "error + unit"
  start_time :: nat

record ('tok, 'client) daemon =
  d_world :: "('tok, 'client) world"
  d_control :: control_state
  d_listen :: socket_addr
  d_timeout :: u64

text \<open>\<open>.context(m)?\<close> on a plain result.\<close>

definition context_of :: "rstr \<Rightarrow> error + 'a \<Rightarrow> error + 'a" where
  "context_of m r = (case r of Inl e \<Rightarrow> Inl (Text m # e) | Inr x \<Rightarrow> Inr x)"

definition setup_runtime ::
  "build \<Rightarrow> ('r, 'base, 'rt, 'cfg, 'client) platform \<Rightarrow> tor_config \<Rightarrow> error + 'rt" where
  "setup_runtime b pf cfg =
     (case b of
        Vcl \<Rightarrow>
          sum_then (context_of (lit ''creating VCL reactor'') (vcl_reactor pf)) (\<lambda>reactor.
          build_runtime (tokio_current pf) (with_tcp_provider pf) reactor (source_v4 cfg) (source_v6 cfg))
      | KernelSockets \<Rightarrow> build_runtime_kernel (tokio_current pf) (with_kernel_provider pf))"

definition setup_tor ::
  "build \<Rightarrow> ('r, 'base, 'rt, 'cfg, 'client) platform \<Rightarrow> (nat \<Rightarrow> 'tok) \<Rightarrow> nat \<Rightarrow> tor_config \<Rightarrow>
   error + ('tok, 'client) tor_manager" where
  "setup_tor b pf fresh drawn cfg =
     sum_then (setup_runtime b pf cfg) (\<lambda>rt.
     context_of (lit ''Tor client'') (new_manager fresh (arti_build pf) (arti_create pf rt) drawn cfg))"

definition run_setup ::
  "build \<Rightarrow> ('r, 'base, 'rt, 'cfg, 'client) platform \<Rightarrow> (nat \<Rightarrow> 'tok) \<Rightarrow> nat \<Rightarrow> tor_config \<Rightarrow>
   error + ('tok, 'client) daemon" where
  "run_setup b pf fresh drawn cfg =
     sum_then (setup_tor b pf fresh drawn cfg) (\<lambda>m.
     sum_then (context_of (lit ''installing SIGHUP handler'') (install_sighup pf)) (\<lambda>_.
     sum_then (context_of (lit ''installing SIGTERM handler'') (install_sigterm pf)) (\<lambda>_.
     Inr \<lparr>d_world = new_server m new_metrics new_registry (start_time pf),
          d_control = \<lparr>cs_started = start_time pf, cs_socks_listen = socks_listen cfg, cs_bootstrap = new_bootstrap\<rparr>,
          d_listen = socks_listen cfg, d_timeout = bootstrap_timeout_secs cfg\<rparr>)))"

text \<open>The line logged once there is a Tor client.\<close>

definition setup_log ::
  "build \<Rightarrow> ('r, 'base, 'rt, 'cfg, 'client) platform \<Rightarrow> (nat \<Rightarrow> 'tok) \<Rightarrow> nat \<Rightarrow> tor_config \<Rightarrow> event list" where
  "setup_log b pf fresh drawn cfg =
     (case setup_tor b pf fresh drawn cfg of
        Inl _ \<Rightarrow> [] | Inr _ \<Rightarrow> [Logged SevInfo (lit ''bootstrapping Tor client'') [StateDirField (state_dir cfg)]])"

section \<open>Background tasks\<close>

definition bootstrap_task :: "nat \<Rightarrow> (error + unit) timed \<Rightarrow> event" where
  "bootstrap_task timeout outcome =
     (case bootstrap timeout outcome of
        Inr _ \<Rightarrow> Logged SevInfo (lit ''Tor client bootstrapped'') []
      | Inl e \<Rightarrow> Logged SevError (lit ''Tor bootstrap failed'' @ dash @
                  lit ''SOCKS CONNECTs fail closed until it recovers'') [error_field e])"

text \<open>The status cell after the readings taken so far, one every two seconds.\<close>

definition poll_status :: "('b \<Rightarrow> rstr) \<Rightarrow> bootstrap_state \<Rightarrow> 'b arti_status list \<Rightarrow> bootstrap_state" where
  "poll_status message bs readings = foldl (\<lambda>b s. bootstrap_store (bootstrap_status message s) b) bs readings"

definition sighup_task :: "nat \<Rightarrow> event list" where
  "sighup_task signals = replicate signals (Logged SevInfo
     (lit ''SIGHUP'' @ dash @ lit ''live reconfigure is a follow-up (see DESIGN.md '' @ [0xA7] @ lit ''9)'') [])"

section \<open>Serving and ending\<close>

datatype daemon_end = Sigterm | SocksDone "error + unit" | ControlDone "error + unit"

definition end_log :: "daemon_end \<Rightarrow> event" where
  "end_log d = (case d of
      Sigterm \<Rightarrow> Logged SevInfo (lit ''SIGTERM received'' @ dash @ lit ''shutting down'') []
    | SocksDone (Inr _) \<Rightarrow> Logged SevWarn (lit ''SOCKS server exited unexpectedly'') []
    | SocksDone (Inl e) \<Rightarrow> Logged SevError (lit ''SOCKS server failed'') [error_field e]
    | ControlDone (Inr _) \<Rightarrow> Logged SevWarn (lit ''control socket exited unexpectedly'') []
    | ControlDone (Inl e) \<Rightarrow> Logged SevError (lit ''control socket failed'') [error_field e])"

text \<open>
  \<open>serving\<close> is what the tasks of the daemon log and which branch of the \<open>select!\<close> is taken.
\<close>

definition run ::
  "build \<Rightarrow> ('r, 'base, 'rt, 'cfg, 'client) platform \<Rightarrow> (nat \<Rightarrow> 'tok) \<Rightarrow> nat \<Rightarrow>
   (('tok, 'client) daemon \<Rightarrow> event list \<times> daemon_end) \<Rightarrow> tor_config \<Rightarrow> event list \<times> (error + unit)" where
  "run b pf fresh drawn serving cfg =
     (let started = setup_log b pf fresh drawn cfg
      in case run_setup b pf fresh drawn cfg of
           Inl e \<Rightarrow> (started, Inl e)
         | Inr d \<Rightarrow> (case serving d of (ls, x) \<Rightarrow> (started @ ls @ [end_log x], Inr ())))"

section \<open>The program\<close>

record 'y host =
  yaml_decoders :: "'y yaml_de"
  parse_yaml :: "rstr \<Rightarrow> error + (rstr \<times> 'y) list"
  read_file :: "rstr \<Rightarrow> io_error + rstr"
  socket_peer :: "rstr \<Rightarrow> io_error + (u8 list \<Rightarrow> io_error + u8 list)"
  rust_log :: "unit + log_filter"

record json_codec =
  from_str :: "rstr \<Rightarrow> json option"
  to_pretty :: "json \<Rightarrow> rstr option"
  to_compact :: "json \<Rightarrow> rstr"
  show_num :: "json_num \<Rightarrow> rstr"

definition show_reply :: "json_codec \<Rightarrow> rstr \<Rightarrow> rstr \<Rightarrow> output_format \<Rightarrow> rstr" where
  "show_reply jc = render (from_str jc) (to_pretty jc) (show_num jc) (to_compact jc)"

definition query_main :: "'y host \<Rightarrow> json_codec \<Rightarrow> rstr \<Rightarrow> rstr \<Rightarrow> output_format \<Rightarrow> event list \<times> (error + unit)" where
  "query_main h jc socket command format =
     (case query (socket_peer h socket) command of
        Inl e \<Rightarrow> ([], Inl [Text (lit ''querying tord at '' @ socket), IoCause e])
      | Inr reply \<Rightarrow> ([Printed (show_reply jc command reply format @ [10])], Inr ()))"

definition start_daemon ::
  "build \<Rightarrow> ('r, 'base, 'rt, 'cfg, 'client) platform \<Rightarrow> (nat \<Rightarrow> 'tok) \<Rightarrow> nat \<Rightarrow>
   (('tok, 'client) daemon \<Rightarrow> event list \<times> daemon_end) \<Rightarrow> tor_config \<Rightarrow> event list \<times> (error + unit)" where
  "start_daemon b pf fresh drawn serving cfg =
     (case sum_then (case b of Vcl \<Rightarrow> context_of (lit ''initialising VCL'') (vcl_init pf) | KernelSockets \<Rightarrow> Inr ())
             (\<lambda>_. context_of (lit ''building current-thread tokio runtime'') (tokio_build pf)) of
        Inl e \<Rightarrow> ([], Inl e)
      | Inr _ \<Rightarrow> run b pf fresh drawn serving cfg)"

text \<open>The daemon's part of \<open>main\<close>, before the filter of the log.\<close>

definition daemon_main ::
  "build \<Rightarrow> 'y host \<Rightarrow> ('r, 'base, 'rt, 'cfg, 'client) platform \<Rightarrow> (nat \<Rightarrow> 'tok) \<Rightarrow> nat \<Rightarrow>
   (('tok, 'client) daemon \<Rightarrow> event list \<times> daemon_end) \<Rightarrow> rstr \<Rightarrow> event list \<times> (error + unit)" where
  "daemon_main b h pf fresh drawn serving path =
     (case load (yaml_decoders h) (parse_yaml h) path (read_file h path) of
        Inl e \<Rightarrow> ([], Inl e)
      | Inr None \<Rightarrow> ([Logged SevInfo (lit ''no tor: section in '' @ path @ dash @ lit ''exiting'') []], Inr ())
      | Inr (Some cfg) \<Rightarrow>
          if enabled cfg
          then apfst ((#) (Logged SevInfo (lit ''tord starting'') [ConfigField cfg])) (start_daemon b pf fresh drawn serving cfg)
          else ([Logged SevInfo (lit ''tor: section present but disabled'' @ dash @ lit ''exiting'') []], Inr ()))"

definition tord_main ::
  "build \<Rightarrow> 'y host \<Rightarrow> json_codec \<Rightarrow> ('r, 'base, 'rt, 'cfg, 'client) platform \<Rightarrow> (nat \<Rightarrow> 'tok) \<Rightarrow> nat \<Rightarrow>
   (('tok, 'client) daemon \<Rightarrow> event list \<times> daemon_end) \<Rightarrow> cli \<Rightarrow> event list \<times> (error + unit)" where
  "tord_main b h jc pf fresh drawn serving c =
     (case subcommand c of
        Some (Query command format) \<Rightarrow> query_main h jc (control_socket c) command format
      | None \<Rightarrow> apfst (filter (shown (subscriber_filter (rust_log h)))) (daemon_main b h pf fresh drawn serving (config_path c)))"

end
