(* ===== verification/Daemon_System.thy ===== *)
theory Daemon_System
  imports Daemon Proxy_Guarantees
begin

text \<open>
  The running daemon: the connections of theory \<open>Proxy_System\<close> together with the SOCKS accept
  loop and its back-off, the control socket and its connections, the task that polls the
  bootstrap status, the bootstrap and SIGHUP tasks, and the \<open>select!\<close> that ends it all. Every
  step is again a segment between two awaits, and appends what it logs. Time is in nanoseconds.
\<close>

section \<open>State\<close>

datatype socks_loop = SocksStarting | SocksAccepting | SocksBackoff (until: nat)

text \<open>
  A connection of the control socket: what its client sends, up to its end; once it is served
  also the outcome of raising the signal, were it asked to, and what was written or the error.
\<close>

datatype control_task =
    CtlReading "io_error + u8 list"
  | CtlDone "io_error + u8 list" "rstr + unit" "error + u8 list"

record ('s, 'tok, 'client, 'up, 'b) running =
  r_world :: "('tok, 'client) world"
  r_tasks :: "('s, 'tok, 'up) phase list"
  r_socks :: socks_loop
  r_cell :: bootstrap_state
  r_next_poll :: nat
  r_booting :: bool
  r_bound :: bool
  r_control :: "control_task list"
  r_hup :: bool
  r_events :: "event list"
  r_end :: "daemon_end option"
  r_failed_accepts :: nat
  r_readings :: "'b arti_status list"

text \<open>
  The last two fields record the failed accepts and the readings of the status so far; the
  program does not keep them. What the steps take from their surroundings:
\<close>

record 'b setting =
  transport :: build
  to_string :: "json \<Rightarrow> rstr"
  printable :: "rchar \<Rightarrow> bool"
  message :: "'b \<Rightarrow> rstr"
  listen_addr :: socket_addr
  socket_path :: rstr
  start_state :: control_state
  timeout_secs :: u64

definition control_view :: "'b setting \<Rightarrow> ('s, 'tok, 'client, 'up, 'b) running \<Rightarrow> control_state" where
  "control_view st d = (start_state st)\<lparr>cs_bootstrap := r_cell d\<rparr>"

definition nanos :: nat where
  "nanos = 1000000000"

definition started :: "('tok, 'client) daemon \<Rightarrow> ('s, 'tok, 'client, 'up, 'b) running" where
  "started d =
     \<lparr>r_world = d_world d, r_tasks = [], r_socks = SocksStarting, r_cell = cs_bootstrap (d_control d),
      r_next_poll = clock (d_world d), r_booting = True, r_bound = False, r_control = [], r_hup = False,
      r_events = [], r_end = None, r_failed_accepts = 0, r_readings = []\<rparr>"

text \<open>The accept loop waits for a client, at once or after its back-off.\<close>

fun accepting :: "socks_loop \<Rightarrow> nat \<Rightarrow> bool" where
  "accepting SocksStarting now = False"
| "accepting SocksAccepting now = True"
| "accepting (SocksBackoff t) now \<longleftrightarrow> t \<le> now"

definition ended_with :: "daemon_end \<Rightarrow> ('s, 'tok, 'client, 'up, 'b) running \<Rightarrow> ('s, 'tok, 'client, 'up, 'b) running" where
  "ended_with x d = d\<lparr>r_end := Some x, r_events := r_events d @ [end_log x]\<rparr>"

definition logged :: "event list \<Rightarrow> ('s, 'tok, 'client, 'up, 'b) running \<Rightarrow> ('s, 'tok, 'client, 'up, 'b) running" where
  "logged es d = d\<lparr>r_events := r_events d @ es\<rparr>"

text \<open>Whether the command of a control connection raised the signal.\<close>

definition raises :: "io_error + u8 list \<Rightarrow> rstr + unit \<Rightarrow> bool" where
  "raises input raised \<longleftrightarrow> raised = Inr () \<and>
     (case read_line input of Inr line \<Rightarrow> trim line = lit ''reload'' | Inl _ \<Rightarrow> False)"

text \<open>
  What the task of a connection logs in a segment that takes it from one phase to another;
  \<open>res\<close> is what the copy returns if it ends. The address of the client is that of its row.
\<close>

definition peer_of :: "('tok, 'client) world \<Rightarrow> 'tok ticket \<Rightarrow> socket_addr" where
  "peer_of w k = entry_peer (heap (streams w) ! row k)"

fun phase_lines ::
  "'s stream_ops \<Rightarrow> ('tok, 'client) world \<Rightarrow> io_error + unit \<Rightarrow> ('s, 'tok, 'up) phase \<Rightarrow> ('s, 'tok, 'up) phase \<Rightarrow>
   event list" where
  "phase_lines io w res (Negotiating s peer) (Refused s') =
     connection_log peer (map_sum id (\<lambda>_. ()) (fst (handshake io s)))"
| "phase_lines io w res (Negotiating s peer) (Connecting s' k) =
     [request_log peer (fst (asked k)) (snd (asked k)) (user k)]"
| "phase_lines io w res (FailReply s k e) (Ended s' k' oc) =
     connection_log (peer_of w k)
       (case fst (send_reply io REP_GENERAL_FAILURE s) of
          Inl e' \<Rightarrow> Inl e' | Inr _ \<Rightarrow> Inl (Text fail_closed_text # Text (lit ''opening anonymised Tor stream'') # e))"
| "phase_lines io w res (OkReply s k up) (Ended s' k' oc) =
     connection_log (peer_of w k) (fst (send_reply io REP_SUCCESS s))"
| "phase_lines io w res (Splicing s k up) (Ended s' k' oc) = connection_log (peer_of w k) (splice_result res)"
| "phase_lines io w res p q = []"

definition task_lines ::
  "'s stream_ops \<Rightarrow> ('tok, 'client) world \<Rightarrow> io_error + unit \<Rightarrow> ('s, 'tok, 'up) phase list \<Rightarrow> ('s, 'tok, 'up) phase list \<Rightarrow>
   event list" where
  "task_lines io w res ts ts' = concat (map2 (phase_lines io w res) ts ts')"

section \<open>Steps\<close>

text \<open>The tasks of the program, of which each step is taken by one.\<close>

datatype actor =
    Connections | AcceptLoop | StatusTask | BootstrapTask | ControlServer | ControlConnection | SignalTasks

inductive daemon_step ::
  "'b setting \<Rightarrow> 's stream_ops \<Rightarrow> (nat \<Rightarrow> 'tok) \<Rightarrow> ('client \<Rightarrow> rstr \<times> u16 \<Rightarrow> 'tok \<Rightarrow> error + 'up \<Rightarrow> bool) \<Rightarrow>
   actor \<Rightarrow> ('s, 'tok, 'client, 'up, 'b) running \<Rightarrow> ('s, 'tok, 'client, 'up, 'b) running \<Rightarrow> bool"
  for st io fresh answers where
  connection: "r_end d = None \<Longrightarrow>
    sys_step io fresh answers (r_world d, r_tasks d) (w, ts) \<Longrightarrow> length ts = length (r_tasks d) \<Longrightarrow>
    daemon_step st io fresh answers Connections d
      (logged (task_lines io (r_world d) res (r_tasks d) ts) (d\<lparr>r_world := w, r_tasks := ts\<rparr>))"
| socks_bound: "r_end d = None \<Longrightarrow> r_socks d = SocksStarting \<Longrightarrow>
    daemon_step st io fresh answers AcceptLoop d
      (logged [listening_log (listen_addr st) (tor (r_world d))] (d\<lparr>r_socks := SocksAccepting\<rparr>))"
| socks_bind_failed: "r_end d = None \<Longrightarrow> r_socks d = SocksStarting \<Longrightarrow> transport st = Vcl \<Longrightarrow>
    serve_vcl (listen_addr st) (tor (r_world d)) (Inl x) ([] :: (rstr + unit \<times> socket_addr) list) = ([], Inl e) \<Longrightarrow>
    daemon_step st io fresh answers AcceptLoop d (ended_with (SocksDone (Inl e)) d)"
| socks_bind_failed_kernel: "r_end d = None \<Longrightarrow> r_socks d = SocksStarting \<Longrightarrow> transport st = KernelSockets \<Longrightarrow>
    serve (listen_addr st) (tor (r_world d)) (Inl y) ([] :: (io_error + unit \<times> socket_addr) list) = ([], Inl e) \<Longrightarrow>
    daemon_step st io fresh answers AcceptLoop d (ended_with (SocksDone (Inl e)) d)"
| socks_accepted: "r_end d = None \<Longrightarrow> accepting (r_socks d) (clock (r_world d)) \<Longrightarrow>
    accept_action (Inr (c, a) :: unit + 's \<times> socket_addr) = Spawn s peer \<Longrightarrow>
    daemon_step st io fresh answers AcceptLoop d
      (d\<lparr>r_tasks := r_tasks d @ [Negotiating s peer], r_socks := SocksAccepting\<rparr>)"
| socks_accept_failed: "r_end d = None \<Longrightarrow> accepting (r_socks d) (clock (r_world d)) \<Longrightarrow>
    accept_action (Inl x :: cause + 's \<times> socket_addr) = Backoff ms \<Longrightarrow>
    daemon_step st io fresh answers AcceptLoop d
      (logged (accept_log (Inl x :: cause + 's \<times> socket_addr))
        (d\<lparr>r_socks := SocksBackoff (clock (r_world d) + ms * 1000000), r_failed_accepts := Suc (r_failed_accepts d)\<rparr>))"
| status_polled: "r_end d = None \<Longrightarrow> r_next_poll d \<le> clock (r_world d) \<Longrightarrow>
    daemon_step st io fresh answers StatusTask d
      (d\<lparr>r_cell := bootstrap_store (bootstrap_status (message st) s) (r_cell d),
         r_next_poll := clock (r_world d) + 2 * nanos, r_readings := r_readings d @ [s]\<rparr>)"
| booted: "r_end d = None \<Longrightarrow> r_booting d \<Longrightarrow>
    (oc = Elapsed \<longrightarrow> cs_started (start_state st) + unat (timeout_secs st) * nanos \<le> clock (r_world d)) \<Longrightarrow>
    daemon_step st io fresh answers BootstrapTask d (logged [bootstrap_task (unat (timeout_secs st)) oc] (d\<lparr>r_booting := False\<rparr>))"
| control_bound: "r_end d = None \<Longrightarrow> \<not> r_bound d \<Longrightarrow>
    daemon_step st io fresh answers ControlServer d (logged [control_listening_log (socket_path st)] (d\<lparr>r_bound := True\<rparr>))"
| control_bind_failed: "r_end d = None \<Longrightarrow> \<not> r_bound d \<Longrightarrow> bind_result (socket_path st) (Inl z) = Inl e \<Longrightarrow>
    daemon_step st io fresh answers ControlServer d (ended_with (ControlDone (Inl e)) d)"
| control_accepted: "r_end d = None \<Longrightarrow> r_bound d \<Longrightarrow>
    daemon_step st io fresh answers ControlServer d (d\<lparr>r_control := r_control d @ [CtlReading input]\<rparr>)"
| control_accept_failed: "r_end d = None \<Longrightarrow> r_bound d \<Longrightarrow>
    control_accepts [Inl x :: error + unit] = (ss, Some e) \<Longrightarrow>
    daemon_step st io fresh answers ControlServer d (ended_with (ControlDone (Inl e)) d)"
| control_served: "r_end d = None \<Longrightarrow> j < length (r_control d) \<Longrightarrow> r_control d ! j = CtlReading input \<Longrightarrow>
    control_handle (to_string st) send (printable st) raised input (control_view st d) (r_world d) = r \<Longrightarrow>
    daemon_step st io fresh answers ControlConnection d (logged (control_log r)
      (d\<lparr>r_control := (r_control d)[j := CtlDone input raised r], r_hup := (r_hup d \<or> raises input raised)\<rparr>))"
| hup_sent: "r_end d = None \<Longrightarrow> daemon_step st io fresh answers SignalTasks d (d\<lparr>r_hup := True\<rparr>)"
| hup_logged: "r_end d = None \<Longrightarrow> r_hup d \<Longrightarrow>
    daemon_step st io fresh answers SignalTasks d (logged (sighup_task 1) (d\<lparr>r_hup := False\<rparr>))"
| terminated: "r_end d = None \<Longrightarrow> daemon_step st io fresh answers SignalTasks d (ended_with Sigterm d)"

inductive daemon_reach ::
  "'b setting \<Rightarrow> 's stream_ops \<Rightarrow> (nat \<Rightarrow> 'tok) \<Rightarrow> ('client \<Rightarrow> rstr \<times> u16 \<Rightarrow> 'tok \<Rightarrow> error + 'up \<Rightarrow> bool) \<Rightarrow>
   ('s, 'tok, 'client, 'up, 'b) running \<Rightarrow> ('s, 'tok, 'client, 'up, 'b) running \<Rightarrow> bool"
  for st io fresh answers d0 where
  at_start: "daemon_reach st io fresh answers d0 d0"
| later: "daemon_reach st io fresh answers d0 d \<Longrightarrow> daemon_step st io fresh answers a d d' \<Longrightarrow>
    daemon_reach st io fresh answers d0 d'"

inductive_cases daemon_stepE: "daemon_step st io fresh answers a d d'"

lemmas running_defs = ended_with_def logged_def nanos_def

end
