(* ===== verification/Control_Guarantees.thy ===== *)
theory Control_Guarantees
  imports Control Proxy_Guarantees
begin

text \<open>
  What the control socket answers: every reply can be encoded, the statistics and the stream
  list are those of the running proxy, and a query gets the reply to its command.
\<close>

section \<open>Replies\<close>

definition example_control :: control_state where
  "example_control =
     \<lparr>cs_started = 0, cs_socks_listen = default_socks_listen, cs_bootstrap = new_bootstrap\<rparr>"

lemma lit_neq_iff: "lit s \<noteq> lit t \<longleftrightarrow> s \<noteq> t"
  by simp

definition known_command :: "rstr \<Rightarrow> bool" where
  "known_command cmd \<longleftrightarrow> cmd \<in> lit ` {''ping'', ''status'', ''stats'', ''streams'', ''reload''}"

lemma json_obj_is_object: "\<exists>m. json_obj kvs = JObj m"
  by (simp add: json_obj_def)

lemma stats_is_object: "\<exists>m. stats_value w = JObj m"
  using json_obj_is_object by (auto simp: stats_value_def metrics_value_def Let_def json_obj_def)

lemma dispatch_object: "dispatch printable raised cmd cs w = ROk v \<Longrightarrow> \<exists>m. v = JObj m"
  using json_obj_is_object stats_is_object
  by (auto simp: dispatch_def status_value_def Let_def split: if_splits sum.splits)

text \<open>
  C36. Every command gets a reply that the encoder accepts: the tag \<open>ok\<close> exactly for the known
  commands (for \<open>reload\<close> if the signal could be raised), otherwise the tag \<open>error\<close> with a
  message.
\<close>

theorem dispatch_encodes:
  "\<exists>m. reply_entries (dispatch printable raised cmd cs w) = Inr m
    \<and> (if known_command cmd \<and> (cmd = lit ''reload'' \<longrightarrow> raised = Inr ())
       then \<exists>d. m = (lit ''status'', JStr (lit ''ok'')) # d \<and> dispatch printable raised cmd cs w = ROk (JObj d)
       else \<exists>msg. m = [(lit ''status'', JStr (lit ''error'')), (lit ''message'', JStr msg)])"
proof (cases "dispatch printable raised cmd cs w")
  case (ROk v)
  with dispatch_object obtain d where "v = JObj d" by blast
  moreover have "known_command cmd \<and> (cmd = lit ''reload'' \<longrightarrow> raised = Inr ())"
    using ROk by (auto simp: dispatch_def known_command_def split: if_splits sum.splits)
  ultimately show ?thesis using ROk by (simp add: framed_def)
next
  case (RError msg)
  then have "\<not> (known_command cmd \<and> (cmd = lit ''reload'' \<longrightarrow> raised = Inr ()))"
    by (auto simp: dispatch_def known_command_def split: if_splits sum.splits)
  then show ?thesis using RError by (auto simp: framed_def)
qed

theorem dispatch_encodes_witness:
  "\<exists>msg. reply_entries (dispatch (\<lambda>c. True) (Inr ()) (lit ''stat'') example_control (example_world Shared))
     = Inr [(lit ''status'', JStr (lit ''error'')), (lit ''message'', JStr msg)]"
proof -
  have "\<not> known_command (lit ''stat'')" by (auto simp: known_command_def)
  then show ?thesis
    using dispatch_encodes [of "\<lambda>c. True" "Inr ()" "lit ''stat''" example_control "example_world Shared"] by auto
qed

section \<open>Statistics and streams of the running proxy\<close>

lemma stats_get:
  "json_get k (stats_value w) =
     (if k = lit ''streams_active'' then Some (json_u64 (of_nat (registry_len (streams w))))
      else json_get k (metrics_value (metrics_read (totals w))))"
proof -
  obtain m where m: "metrics_value (metrics_read (totals w)) = JObj m" "keys_sorted m"
    unfolding metrics_value_def by (rule json_obj_cases)
  then show ?thesis by (simp add: stats_value_def map_insert_get)
qed

lemma metrics_get:
  "json_get (lit ''connects_total'') (metrics_value s) = Some (json_u64 (snap_connects_total s))"
  "json_get (lit ''connects_ok'') (metrics_value s) = Some (json_u64 (snap_connects_ok s))"
  "json_get (lit ''connects_failed'') (metrics_value s) = Some (json_u64 (snap_connects_failed s))"
  "json_get (lit ''bytes_to_upstream'') (metrics_value s) = Some (json_u64 (snap_bytes_to_upstream s))"
  "json_get (lit ''bytes_to_client'') (metrics_value s) = Some (json_u64 (snap_bytes_to_client s))"
  by (simp_all add: metrics_value_def json_obj_get)

lemma dispatch_stats: "dispatch printable raised (lit ''stats'') cs w = ROk (stats_value w)"
  by (simp add: dispatch_def)

lemma dispatch_streams:
  "dispatch printable raised (lit ''streams'') cs w =
     ROk (json_obj [(lit ''streams'', JArr (map row_value (registry_snapshot (clock w) (streams w))))])"
  by (simp add: dispatch_def)

text \<open>
  C31. The statistics of a running proxy: in every reachable state the \<open>stats\<close> reply has the
  number of open connections as \<open>streams_active\<close>, the spliced and the failed ones as
  \<open>connects_ok\<close> and \<open>connects_failed\<close>, and their sum with the undecided ones as
  \<open>connects_total\<close>.
\<close>

theorem stats_reply:
  assumes "reachable io fresh answers w0 (w, ts)" and "initial fresh w0"
    and "tasks_with is_requested ts \<le> 2 ^ 64"
  shows "\<exists>v. dispatch printable raised (lit ''stats'') cs w = ROk v
    \<and> json_get (lit ''streams_active'') v = Some (json_u64 (of_nat (tasks_with is_open ts)))
    \<and> json_get (lit ''connects_ok'') v = Some (json_u64 (of_nat (tasks_with is_ok ts)))
    \<and> json_get (lit ''connects_failed'') v = Some (json_u64 (of_nat (tasks_with is_failed ts)))
    \<and> json_get (lit ''connects_total'') v = Some (json_u64 (of_nat (tasks_with is_requested ts)))"
proof -
  have "rows_ok (w, ts)" by (rule rows_reachable [OF assms(1,2)])
  then have "registry_len (streams w) = tasks_with is_open ts"
    using assms(3) card_open_rows by (auto simp: rows_ok_def registry_len_live)
  moreover have "counters_ok (w, ts)" by (rule counters_reachable [OF assms(1,2)])
  ultimately show ?thesis
    by (simp add: dispatch_stats stats_get metrics_get metrics_read_def counters_ok_def)
qed

lemma example_requested:
  "tasks_with is_requested [Connecting s1 k, Connecting s2 l] \<le> 2 ^ 64"
  by (simp add: is_requested_def)

theorem stats_reply_witness:
  "\<exists>(w :: (nat, unit) world) v. dispatch (\<lambda>c. True) (Inr ()) (lit ''stats'') example_control w = ROk v
     \<and> json_get (lit ''streams_active'') v = Some (json_u64 2)
     \<and> json_get (lit ''connects_total'') v = Some (json_u64 2)"
proof -
  obtain w s1 s2 k l where "reachable conn_ops id any_answer (example_world PerUpstream)
      (w, [Connecting s1 k, Connecting s2 l])"
    by (rule example_state)
  from stats_reply [OF this example_initial example_requested, of "\<lambda>c. True" "Inr ()" example_control] show ?thesis
    by (simp add: is_requested_def) blast
qed

lemma snapshot_reachable:
  assumes "reachable io fresh answers w0 (w, ts)" and "initial fresh w0"
    and "tasks_with is_requested ts \<le> 2 ^ 64"
  shows "registry_snapshot (clock w) (streams w)
      = map (\<lambda>a. snapshot_row (clock w) (heap (streams w) ! a)) (sorted_list_of_set (open_rows ts))"
    and "card (open_rows ts) = tasks_with is_open ts" and "finite (open_rows ts)"
proof -
  have ok: "rows_ok (w, ts)" by (rule rows_reachable [OF assms(1,2)])
  then have l: "live (streams w) = open_rows ts" "registry_wf (streams w)" "length (heap (streams w)) \<le> 2 ^ 64"
    using assms(3) by (simp_all add: rows_ok_def)
  then show "registry_snapshot (clock w) (streams w)
      = map (\<lambda>a. snapshot_row (clock w) (heap (streams w) ! a)) (sorted_list_of_set (open_rows ts))"
    using snapshot_sorted_live [OF l(2,3)] by (simp only: l(1))
  show "card (open_rows ts) = tasks_with is_open ts"
    using ok by (intro card_open_rows [of "tasks_with is_requested ts"]) (simp add: rows_ok_def)
  have "{row k |i k. i < length ts \<and> is_open (ts ! i) \<and> ticket_of (ts ! i) = Some k}
      \<subseteq> (\<lambda>i. row (the (ticket_of (ts ! i)))) ` {..<length ts}"
    by (auto intro!: image_eqI)
  then show "finite (open_rows ts)" unfolding open_rows_def by (rule finite_subset) simp
qed

text \<open>
  The stream list of a running proxy: in every reachable state the \<open>streams\<close> reply has one
  row per open connection, in the order of their requests.
\<close>

theorem streams_reply:
  assumes "reachable io fresh answers w0 (w, ts)" and "initial fresh w0"
    and "tasks_with is_requested ts \<le> 2 ^ 64"
  shows "\<exists>v. dispatch printable raised (lit ''streams'') cs w = ROk v
    \<and> json_get (lit ''streams'') v = Some (JArr (map (\<lambda>a. row_value (snapshot_row (clock w) (heap (streams w) ! a)))
         (sorted_list_of_set (open_rows ts))))
    \<and> card (open_rows ts) = tasks_with is_open ts"
  using snapshot_reachable [OF assms] by (simp add: dispatch_streams json_obj_get comp_def)

theorem streams_reply_witness:
  "\<exists>(w :: (nat, unit) world) v rs. dispatch (\<lambda>c. True) (Inr ()) (lit ''streams'') example_control w = ROk v
     \<and> json_get (lit ''streams'') v = Some (JArr rs) \<and> length rs = 2"
proof -
  obtain w s1 s2 k l where "reachable conn_ops id any_answer (example_world PerUpstream)
      (w, [Connecting s1 k, Connecting s2 l])"
    by (rule example_state)
  from streams_reply [OF this example_initial example_requested] show ?thesis
    by fastforce
qed

section \<open>A query\<close>

lemma trim_newline: "trim (s @ [10]) = trim s"
proof (cases "list_all is_ws s")
  case True
  then have "dropWhile is_ws s = []" "dropWhile is_ws (s @ [10]) = []"
    by (auto simp: dropWhile_eq_Nil_conv list_all_iff is_ws_def)
  then show ?thesis by (simp only: trim_def trim_start_def)
next
  case False
  then have "dropWhile is_ws (s @ [10]) = dropWhile is_ws s @ [10]"
    by (auto simp: dropWhile_append list_all_iff)
  then show ?thesis
    using trim_end_append_ws [of "[10]" "dropWhile is_ws s"] by (simp add: trim_def trim_start_def is_ws_def)
qed

lemma utf8_char_newline: "is_scalar c \<Longrightarrow> 10 \<in> set (utf8_char c) \<Longrightarrow> c = 10"
  by (auto simp: utf8_char_def split: if_splits)

lemma utf8_encode_newline:
  assumes "list_all is_scalar s" and "10 \<notin> set s"
  shows "10 \<notin> set (utf8_encode s)"
proof
  assume "10 \<in> set (utf8_encode s)"
  then obtain c b where c: "c \<in> set s" "b \<in> set (utf8_char c)" "(of_nat b :: u8) = 10"
    by (auto simp: utf8_encode_def)
  then have "is_scalar c" using assms(1) by (simp add: list_all_iff)
  then have "b < 256" using utf8_char_byte c(2) by blast
  then have "b = unat (of_nat b :: u8)" by (simp add: unsigned_of_nat take_bit_nat_eq_self)
  with c(3) have "b = 10" by simp
  with utf8_char_newline \<open>is_scalar c\<close> c(1,2) assms(2) show False by blast
qed

lemma utf8_encode_append: "utf8_encode (s @ t) = utf8_encode s @ utf8_encode t"
  by (simp add: utf8_encode_def)

lemma first_line_command:
  "list_all is_scalar s \<Longrightarrow> 10 \<notin> set s \<Longrightarrow> first_line (utf8_encode (s @ [10])) = utf8_encode (s @ [10])"
proof -
  have "first_line (bs @ [10]) = bs @ [10]" if "10 \<notin> set bs" for bs :: "u8 list"
    using that unfolding first_line_def by (subst takeWhile_append2, blast, subst dropWhile_append2, blast) simp
  moreover assume "list_all is_scalar s" "10 \<notin> set s"
  moreover have "utf8_encode [10] = [10]" by (simp add: utf8_encode_def utf8_char_def)
  ultimately show ?thesis using utf8_encode_newline [of s] by (simp add: utf8_encode_append)
qed

text \<open>What the socket of a running daemon answers: a failed connection is closed without a reply.\<close>

definition control_peer ::
  "(json \<Rightarrow> rstr) \<Rightarrow> (rchar \<Rightarrow> bool) \<Rightarrow> rstr + unit \<Rightarrow> control_state \<Rightarrow> ('tok, 'client) world \<Rightarrow>
   u8 list \<Rightarrow> io_error + u8 list" where
  "control_peer to_string printable raised cs w req =
     (case control_handle to_string (\<lambda>out. Inr ()) printable raised (Inr req) cs w of
        Inl e \<Rightarrow> Inr [] | Inr out \<Rightarrow> Inr out)"

lemma query_result:
  assumes "list_all is_scalar cmd" and "10 \<notin> set cmd" and "\<And>v. list_all is_scalar (to_string v)"
  shows "\<exists>m. reply_entries (dispatch printable raised (trim cmd) cs w) = Inr m
    \<and> query (Inr (control_peer to_string printable raised cs w)) cmd = Inr (to_string (JObj m) @ [10])"
proof -
  have nl: "list_all is_scalar [10]" by (simp add: is_scalar_def)
  have "from_utf8 (first_line (utf8_encode (cmd @ [10]))) = Some (cmd @ [10])"
    using assms(1,2) nl by (simp add: first_line_command from_utf8_encode)
  then have line: "read_line (Inr (utf8_encode (cmd @ [10]))) = Inr (cmd @ [10])" by (simp add: read_line_def)
  have "\<exists>m. reply_entries (dispatch printable raised (trim cmd) cs w) = Inr m"
    by (cases "dispatch printable raised (trim cmd) cs w") (use dispatch_object in fastforce)+
  then obtain m where m: "reply_entries (dispatch printable raised (trim cmd) cs w) = Inr m" ..
  have "list_all is_scalar (to_string (JObj m) @ [10])" using assms(3) nl by simp
  then have "from_utf8 (utf8_encode (to_string (JObj m) @ [10])) = Some (to_string (JObj m) @ [10])"
    by (rule from_utf8_encode)
  with line m show ?thesis
    by (simp add: query_def control_peer_def control_handle_def trim_newline)
qed



end
