(* ===== verification/Daemon_Guarantees.thy ===== *)
theory Daemon_Guarantees
  imports Daemon Control_Guarantees
begin

text \<open>
  The program as a whole: when it runs, that what it runs is the system of theory
  \<open>Proxy_System\<close> with the configured policy, how it ends, and what the query tool prints.
\<close>

section \<open>The start\<close>

lemma context_of_Inr: "context_of m r = Inr x \<longleftrightarrow> r = Inr x"
  by (cases r) (simp_all add: context_of_def)

lemma new_manager_client:
  "new_manager fresh build create drawn cfg = Inr m \<Longrightarrow>
   \<exists>c. build (path_join (state_dir cfg) (lit ''state'')) (path_join (state_dir cfg) (lit ''cache'')) = Inr c
     \<and> create c = Inr (client m)"
  by (auto simp: new_manager_def build_arti_config_def sum_then_eq_Inr split: sum.splits)

lemma run_setup_Inr:
  assumes "run_setup b pf fresh drawn cfg = Inr d"
  obtains rt m where "setup_runtime b pf cfg = Inr rt"
    and "new_manager fresh (arti_build pf) (arti_create pf rt) drawn cfg = Inr m"
    and "setup_tor b pf fresh drawn cfg = Inr m"
    and "d_world d = \<lparr>totals = new_metrics, streams = new_registry, tor = m, clock = start_time pf\<rparr>"
    and "d_control d = \<lparr>cs_started = start_time pf, cs_socks_listen = socks_listen cfg, cs_bootstrap = new_bootstrap\<rparr>"
    and "d_listen d = socks_listen cfg" and "d_timeout d = bootstrap_timeout_secs cfg"
  using assms by (auto simp: run_setup_def setup_tor_def new_server_def sum_then_eq_Inr context_of_Inr)

lemma run_setup_initial:
  assumes "run_setup b pf fresh drawn cfg = Inr d"
  shows "initial fresh (d_world d)" and "policy (tor (d_world d)) = isolation cfg"
  using assms by (auto elim!: run_setup_Inr dest: new_manager_wf simp: initial_def)

text \<open>An example platform on which everything succeeds.\<close>

definition example_platform :: "(unit, unit, unit net_provider option, rstr \<times> rstr, unit) platform" where
  "example_platform =
     \<lparr>vcl_init = Inr (), tokio_build = Inr (), vcl_reactor = Inr (), tokio_current = Inr (),
      with_tcp_provider = (\<lambda>base p. Some p), with_kernel_provider = (\<lambda>base p. None), arti_build = (\<lambda>s c. Inr (s, c)), arti_create = (\<lambda>rt c. Inr ()),
      install_sighup = Inr (), install_sigterm = Inr (), start_time = 0\<rparr>"

definition example_daemon :: "isolation_policy \<Rightarrow> (nat, unit) daemon" where
  "example_daemon p =
     \<lparr>d_world = example_world p,
      d_control = \<lparr>cs_started = 0, cs_socks_listen = default_socks_listen, cs_bootstrap = new_bootstrap\<rparr>,
      d_listen = default_socks_listen, d_timeout = 120\<rparr>"

lemma example_setup:
  "run_setup b example_platform id 0 (default_config\<lparr>isolation := p\<rparr>) = Inr (example_daemon p)"
  by (cases b) (simp_all add: run_setup_def setup_tor_def setup_runtime_def new_server_def context_of_def
      example_platform_def build_runtime_def build_runtime_kernel_def new_manager_def
      build_arti_config_def default_config_def DEFAULT_BOOTSTRAP_TIMEOUT_SECS_def
      example_daemon_def example_world_def example_manager_def)

text \<open>
  C34. The daemon that is set up from a configuration, in either build: arti runs on the provider
  of the build, which under \<open>vcl\<close> binds the configured source addresses, and keeps its state
  below the configured directory; the listener and the bootstrap bound are the configured
  ones, and the shared state starts empty with the configured policy, as every guarantee of
  the proxy system assumes.
\<close>

theorem daemon_of_config:
  assumes "run_setup b pf fresh drawn cfg = Inr d"
  shows "(\<exists>base rt c. tokio_current pf = Inr base
      \<and> (case b of
           Vcl \<Rightarrow> \<exists>r. vcl_reactor pf = Inr r \<and>
             rt = with_tcp_provider pf base \<lparr>reactor = r, bind_v4 = source_v4 cfg, bind_v6 = source_v6 cfg\<rparr>
         | KernelSockets \<Rightarrow> rt = with_kernel_provider pf base KernelProvider)
      \<and> arti_build pf (path_join (state_dir cfg) (lit ''state'')) (path_join (state_dir cfg) (lit ''cache'')) = Inr c
      \<and> arti_create pf rt c = Inr (client (tor (d_world d))))
    \<and> d_listen d = socks_listen cfg \<and> d_timeout d = bootstrap_timeout_secs cfg
    \<and> initial fresh (d_world d) \<and> policy (tor (d_world d)) = isolation cfg"
  using assms
proof (rule run_setup_Inr)
  fix rt m
  assume rt: "setup_runtime b pf cfg = Inr rt"
    and m: "new_manager fresh (arti_build pf) (arti_create pf rt) drawn cfg = Inr m"
    and d: "d_world d = \<lparr>totals = new_metrics, streams = new_registry, tor = m, clock = start_time pf\<rparr>"
      "d_listen d = socks_listen cfg" "d_timeout d = bootstrap_timeout_secs cfg"
  from rt obtain base where "tokio_current pf = Inr base"
      "case b of
           Vcl \<Rightarrow> \<exists>r. vcl_reactor pf = Inr r \<and>
             rt = with_tcp_provider pf base \<lparr>reactor = r, bind_v4 = source_v4 cfg, bind_v6 = source_v6 cfg\<rparr>
         | KernelSockets \<Rightarrow> rt = with_kernel_provider pf base KernelProvider"
    by (cases "tokio_current pf") (auto simp: setup_runtime_def build_runtime_def build_runtime_kernel_def
        new_provider_def new_provider_kernel_def sum_then_eq_Inr context_of_Inr split: build.splits)
  moreover from new_manager_client [OF m] obtain c where
    "arti_build pf (path_join (state_dir cfg) (lit ''state'')) (path_join (state_dir cfg) (lit ''cache'')) = Inr c"
    "arti_create pf rt c = Inr (client (tor (d_world d)))"
    by (auto simp: d(1))
  ultimately show ?thesis using d(2,3) run_setup_initial [OF assms] by blast
qed

theorem daemon_of_config_witness:
  "initial id (d_world (example_daemon PerQuery)) \<and> policy (tor (d_world (example_daemon PerQuery))) = PerQuery"
  using daemon_of_config [OF example_setup [of Vcl PerQuery]] by simp

text \<open>
  From the configuration to the circuits: in every reachable state of the daemon set up with
  a policy, connections of different users never share a token if the policy is at least
  \<open>PerUpstream\<close>, those of one user always do if it is at most \<open>PerUpstream\<close>, all do under
  \<open>Shared\<close> and no two do under \<open>PerQuery\<close>.
\<close>

theorem daemon_isolation:
  assumes "run_setup b pf fresh drawn cfg = Inr d"
    and "reachable io fresh answers (d_world d) (w, ts)" and "inj fresh"
    and "i < length ts" and "j < length ts" and "i \<noteq> j"
    and "ticket_of (ts ! i) = Some k" and "ticket_of (ts ! j) = Some l"
  shows "(PerUpstream \<le> isolation cfg \<longrightarrow> user k \<noteq> user l \<longrightarrow> tok k \<noteq> tok l)
    \<and> (isolation cfg \<le> PerUpstream \<longrightarrow> user k = user l \<longrightarrow> tok k = tok l)
    \<and> (isolation cfg = Shared \<longrightarrow> tok k = tok l) \<and> (isolation cfg = PerQuery \<longrightarrow> tok k \<noteq> tok l)"
proof -
  have "sys_tokens_ok fresh (policy (tor (d_world d))) (w, ts)"
    by (rule sys_tokens_reachable [OF assms(3) run_setup_initial(1) [OF assms(1)] assms(2)])
  then have "tokens_ok fresh (tor w) (map ticket_of ts)" "policy (tor w) = isolation cfg"
    using run_setup_initial(2) [OF assms(1)] by (simp_all add: sys_tokens_ok_def)
  with tokens_ok_shares [of fresh "tor w" "map ticket_of ts" i j k l] assms(4-8)
  have s: "tok k = tok l \<longleftrightarrow> shares (isolation cfg) k l" by simp
  have "shares (isolation cfg) k l \<Longrightarrow> PerUpstream \<le> isolation cfg \<Longrightarrow> shares PerUpstream k l"
    "shares PerUpstream k l \<Longrightarrow> isolation cfg \<le> PerUpstream \<Longrightarrow> shares (isolation cfg) k l"
    using shares_antimono by blast+
  with s show ?thesis by (auto simp: shares_def)
qed

theorem daemon_isolation_witness:
  "\<exists>w s1 s2 k l. reachable conn_ops id any_answer (d_world (example_daemon PerQuery))
       (w, [Connecting s1 k, Connecting s2 l]) \<and> tok k \<noteq> tok l"
proof -
  obtain w s1 s2 k l where r: "reachable conn_ops id any_answer (example_world PerQuery)
      (w, [Connecting s1 k, Connecting s2 l])"
    by (rule example_state)
  then have "reachable conn_ops id any_answer (d_world (example_daemon PerQuery)) (w, [Connecting s1 k, Connecting s2 l])"
    by (simp add: example_daemon_def)
  moreover from daemon_isolation [OF example_setup [of Vcl] this inj_on_id, of 0 1 k l] have "tok k \<noteq> tok l" by simp
  ultimately show ?thesis by blast
qed

section \<open>Gating\<close>

lemma tor_section_value:
  "tor_section de seen doc = Inr (Some cfg) \<Longrightarrow> seen \<noteq> Some (Some cfg) \<Longrightarrow>
   \<exists>y kvs. (lit ''tor'', y) \<in> set doc \<and> de_opt_map de y = Inr (Some kvs) \<and> config_of_map de kvs = Inr cfg"
proof (induction de seen doc rule: tor_section.induct)
  case (1 de seen)
  then show ?case by (auto simp: or_default_def split: option.splits)
next
  case (2 de seen k y doc)
  show ?case
  proof (cases "k = lit ''tor''")
    case False
    with 2 show ?thesis by auto
  next
    case True
    with "2.prems" obtain m v where m: "de_opt_map de y = Inr m"
        "(case m of None \<Rightarrow> Inr None | Some kvs \<Rightarrow> sum_then (config_of_map de kvs) (\<lambda>c. Inr (Some c))) = Inr v"
        "tor_section de (Some v) doc = Inr (Some cfg)"
      by (auto simp: set_once_def sum_then_eq_Inr split: option.splits)
    show ?thesis
    proof (cases "v = Some cfg")
      case True
      with m(1,2) \<open>k = lit ''tor''\<close> show ?thesis by (auto simp: sum_then_eq_Inr split: option.splits)
    next
      case False
      with "2.IH"(1) [OF True m(3)] show ?thesis by auto
    qed
  qed
qed

lemma config_enabled:
  assumes "config_of_map de kvs = Inr cfg" and "enabled cfg"
  shows "\<exists>b. map_of kvs (lit ''enabled'') = Some b \<and> de_bool de b = Inr True"
proof -
  from assms(1) obtain p where "visit_map de no_fields kvs = Inr p" and c: "cfg = config_of_partial p"
    by (auto simp: config_of_map_def sum_then_eq_Inr)
  then have "section_value (lit ''enabled'') (de_bool de) kvs False (or_default (p_enabled p) False)"
    by (intro f_enabled.slot_or_default)
  with assms(2) c show ?thesis
    by (simp add: config_of_partial_def default_config_def section_value_def split: option.splits)
qed

lemma load_enabled:
  assumes "load de parse path raw = Inr (Some cfg)"
  shows "\<exists>s doc. raw = Inr s \<and> parse s = Inr doc \<and> tor_section de None doc = Inr (Some cfg)"
  using assms by (auto simp: load_def sum_then_eq_Inr split: sum.splits if_splits)

text \<open>
  C24. Nothing of the daemon runs unless the configuration says so: what \<open>main\<close> does, its log
  included, depends on the build, VCL, tokio, arti, signals and the isolation tokens only if the file could be read and
  parsed and has a \<open>tor:\<close> mapping whose \<open>enabled\<close> key is the boolean true.
\<close>

theorem daemon_gate:
  "tord_main b h jc pf fresh drawn serving c = tord_main b' h jc pf' fresh' drawn' serving' c
   \<or> (subcommand c = None \<and>
      (\<exists>s doc y kvs e. read_file h (config_path c) = Inr s \<and> parse_yaml h s = Inr doc
        \<and> (lit ''tor'', y) \<in> set doc \<and> de_opt_map (yaml_decoders h) y = Inr (Some kvs)
        \<and> map_of kvs (lit ''enabled'') = Some e \<and> de_bool (yaml_decoders h) e = Inr True))"
proof (cases "\<exists>cfg. subcommand c = None \<and> enabled cfg \<and>
    load (yaml_decoders h) (parse_yaml h) (config_path c) (read_file h (config_path c)) = Inr (Some cfg)")
  case True
  then obtain cfg where "subcommand c = None" "enabled cfg" and
    l: "load (yaml_decoders h) (parse_yaml h) (config_path c) (read_file h (config_path c)) = Inr (Some cfg)"
    by blast
  moreover from load_enabled [OF l] obtain s doc where
    "read_file h (config_path c) = Inr s" "parse_yaml h s = Inr doc"
    "tor_section (yaml_decoders h) None doc = Inr (Some cfg)" by blast
  moreover from tor_section_value [OF this(3)] obtain y kvs where
    "(lit ''tor'', y) \<in> set doc" "de_opt_map (yaml_decoders h) y = Inr (Some kvs)"
    "config_of_map (yaml_decoders h) kvs = Inr cfg" by auto
  moreover note config_enabled [OF this(3)]
  ultimately show ?thesis by blast
next
  case False
  then show ?thesis
    by (auto simp: tord_main_def daemon_main_def split: option.split sum.split subcommand.split)
qed

section \<open>What the query tool prints\<close>

text \<open>
  What is assumed of the JSON codec for a reply: it is printed in Unicode scalar values, and
  parsing the printed object gives it back with its keys in order.
\<close>

definition reads_back :: "json_codec \<Rightarrow> (json \<Rightarrow> rstr) \<Rightarrow> (rstr \<times> json) list \<Rightarrow> bool" where
  "reads_back jc to_string m \<longleftrightarrow> from_str jc (to_string (JObj m) @ [10]) = Some (json_obj m)"

lemma query_main_prints:
  assumes "list_all is_scalar cmd" and "10 \<notin> set cmd" and "\<And>v. list_all is_scalar (to_string v)"
    and "socket_peer h socket = Inr (control_peer to_string printable raised cs w)"
    and "reply_entries (dispatch printable raised (trim cmd) cs w) = Inr m" and "reads_back jc to_string m"
  shows "query_main h jc socket cmd TableOutput
    = ([Printed (render_table (show_num jc) (to_compact jc) cmd (json_obj m) @ [10])], Inr ())"
proof -
  have "query (socket_peer h socket) cmd = Inr (to_string (JObj m) @ [10])"
    using query_result [OF assms(1,2,3), of printable raised cs w] assms(4,5) by auto
  then show ?thesis using assms(6) by (simp add: query_main_def show_reply_def render_def reads_back_def)
qed

lemma command_words:
  "list_all is_scalar (lit ''streams'')" "10 \<notin> set (lit ''streams'')" "trim (lit ''streams'') = lit ''streams''"
  by (simp_all add: lit_def is_scalar_def trim_def trim_start_def trim_end_def is_ws_def)

definition streams_entries :: "('tok, 'client) world \<Rightarrow> (rstr \<times> json) list" where
  "streams_entries w = framed ''ok''
     [(lit ''streams'', JArr (map row_value (registry_snapshot (clock w) (streams w))))]"

lemma streams_entries_reply:
  "reply_entries (dispatch printable raised (lit ''streams'') cs w) = Inr (streams_entries w)"
  by (simp add: dispatch_streams json_obj_def streams_entries_def)

lemma render_streams_entries:
  "render_table sn tc command (json_obj (streams_entries w))
     = render_streams sn tc (map row_value (registry_snapshot (clock w) (streams w)))"
  by (simp add: render_table_def json_obj_get streams_entries_def framed_def)

text \<open>
  C30. From the shared state to the terminal: \<open>tord query streams\<close> against a running daemon
  prints \<open>no active connections\<close> if no connection is open, and otherwise the table of the open
  connections with one row each, ordered by id.
\<close>

theorem query_streams_output:
  assumes "reachable io fresh answers w0 (w, ts)" and "initial fresh w0"
    and "tasks_with is_requested ts \<le> 2 ^ 64"
    and "socket_peer h socket = Inr (control_peer to_string printable raised cs w)"
    and "\<And>v. list_all is_scalar (to_string v)" and "reads_back jc to_string (streams_entries w)"
  shows "query_main h jc socket (lit ''streams'') TableOutput = ([Printed (
      (if tasks_with is_open ts = 0 then lit ''no active connections''
       else render_streams (show_num jc) (to_compact jc)
         (map (\<lambda>a. row_value (snapshot_row (clock w) (heap (streams w) ! a))) (sorted_list_of_set (open_rows ts))))
      @ [10])], Inr ())"
proof -
  note snap = snapshot_reachable [OF assms(1-3)]
  have reply: "reply_entries (dispatch printable raised (trim (lit ''streams'')) cs w) = Inr (streams_entries w)"
    by (simp only: command_words(3) streams_entries_reply)
  have "query_main h jc socket (lit ''streams'') TableOutput = ([Printed (render_streams (show_num jc) (to_compact jc)
      (map row_value (registry_snapshot (clock w) (streams w))) @ [10])], Inr ())"
    using query_main_prints [OF command_words(1,2) assms(5,4) reply assms(6)]
    by (simp only: render_streams_entries)
  moreover have "tasks_with is_open ts = 0 \<longleftrightarrow> open_rows ts = {}" using snap(2,3) by auto
  ultimately show ?thesis by (simp add: snap(1) comp_def render_streams_def)
qed

definition example_codec :: json_codec where
  "example_codec =
     \<lparr>from_str = (\<lambda>s. if s = lit ''{\"status\":\"ok\",\"streams\":[]}'' @ [10]
                   then Some (json_obj [(lit ''status'', JStr (lit ''ok'')), (lit ''streams'', JArr [])]) else None),
      to_pretty = (\<lambda>v. None), to_compact = (\<lambda>v. []), show_num = (\<lambda>n. [])\<rparr>"

definition example_to_string :: "json \<Rightarrow> rstr" where
  "example_to_string v =
     (if v = JObj [(lit ''status'', JStr (lit ''ok'')), (lit ''streams'', JArr [])]
      then lit ''{\"status\":\"ok\",\"streams\":[]}'' else lit ''null'')"

definition example_host :: "plain_yaml host" where
  "example_host =
     \<lparr>yaml_decoders = plain_de, parse_yaml = (\<lambda>s. Inr []), read_file = (\<lambda>p. Inl (IoError NotFound [])),
      socket_peer = (\<lambda>s. Inr (control_peer example_to_string (\<lambda>c. True) (Inr ())
        \<lparr>cs_started = 0, cs_socks_listen = default_socks_listen, cs_bootstrap = new_bootstrap\<rparr>
        (example_world PerUpstream))),
      rust_log = Inl ()\<rparr>"

theorem query_streams_output_witness:
  "query_main example_host example_codec (lit ''/run/tord.sock'') (lit ''streams'') TableOutput
     = ([Printed (lit ''no active connections'' @ [10])], Inr ())"
proof -
  let ?cs = "\<lparr>cs_started = 0, cs_socks_listen = default_socks_listen, cs_bootstrap = new_bootstrap\<rparr>"
  let ?ts = "[] :: (conn, nat, unit) phase list"
  have r: "reachable conn_ops id any_answer (example_world PerUpstream) (example_world PerUpstream, ?ts)"
    by (rule reachable.start)
  have n: "tasks_with is_requested ?ts \<le> 2 ^ 64" by simp
  have h: "socket_peer example_host (lit ''/run/tord.sock'')
      = Inr (control_peer example_to_string (\<lambda>c. True) (Inr ()) ?cs (example_world PerUpstream))"
    by (simp add: example_host_def)
  have s: "list_all is_scalar (example_to_string v)" for v
    by (simp add: example_to_string_def lit_def is_scalar_def)
  have "streams_entries (example_world PerUpstream) = [(lit ''status'', JStr (lit ''ok'')), (lit ''streams'', JArr [])]"
    by (simp add: streams_entries_def framed_def example_world_def registry_snapshot_def new_registry_def hm_new_def hm_values_def)
  then have "reads_back example_codec example_to_string (streams_entries (example_world PerUpstream))"
    by (simp add: reads_back_def example_codec_def example_to_string_def)
  from query_streams_output [OF r example_initial n h s this] show ?thesis by simp
qed

lemma poll_status_last:
  "poll_status message bs (readings @ [s]) = bootstrap_store (bootstrap_status message s) (poll_status message bs readings)"
  by (simp add: poll_status_def)

text \<open>What is read back from the cell after a reading was stored.\<close>

lemma bootstrap_read_store:
  obtains p where
    "bootstrap_read (bootstrap_store (bootstrap_status message s) b) = \<lparr>snap_ready = ready_for_traffic s,
       snap_fraction = F32 (fl32 (of_nat p / 1000)), snap_blocked = map_option message (blocked_by s)\<rparr>"
    and "p \<le> 1000"
    and "\<forall>x. as_frac s = F32 x \<longrightarrow> \<bar>of_nat p - clamped x * 1000\<bar> \<le> 1 + 1 / 2 ^ 15"
proof -
  define snap where "snap = bootstrap_status message s"
  define p where "p = unat (frac_permille (bootstrap_store snap b))"
  note progress = bootstrap_store_progress [of snap b]
  have p: "p \<le> 1000" using progress by (simp add: p_def)
  have "\<bar>of_nat p - clamped x * 1000\<bar> \<le> 1 + 1 / 2 ^ 15" if "as_frac s = F32 x" for x
  proof -
    have "snap_fraction snap = F32 x" using that by (simp add: snap_def bootstrap_status_def)
    with progress have "of_nat p \<le> clamped x * 1000 + 1 / 2 ^ 15" "clamped x * 1000 < of_nat p + 1 + 1 / 2 ^ 15"
      unfolding p_def by blast+
    then show ?thesis unfolding abs_le_iff by (intro conjI; linarith)
  qed
  moreover have "bootstrap_read (bootstrap_store snap b) = \<lparr>snap_ready = ready_for_traffic s,
      snap_fraction = F32 (fl32 (of_nat p / 1000)), snap_blocked = map_option message (blocked_by s)\<rparr>"
    using fl32_small_nat [OF p]
    by (simp only: bootstrap_read_def p_def [symmetric]) (simp add: bootstrap_store_def snap_def bootstrap_status_def)
  ultimately show thesis using that p unfolding snap_def by blast
qed

lemma dispatch_status: "dispatch printable raised (lit ''status'') cs w = ROk (status_value cs (clock w))"
  by (simp add: dispatch_def)

lemma status_get:
  "json_get (lit ''uptime_secs'') (status_value cs now) = Some (json_u64 (of_nat ((now - cs_started cs) div 1000000000)))"
  "json_get (lit ''socks_listen'') (status_value cs now) = Some (JStr (socket_display (cs_socks_listen cs)))"
  "bootstrap_read (cs_bootstrap cs) = \<lparr>snap_ready = r, snap_fraction = F32 f, snap_blocked = m\<rparr> \<Longrightarrow>
   \<exists>tv. json_get (lit ''tor'') (status_value cs now) = Some tv \<and> json_get (lit ''ready'') tv = Some (JBool r)
     \<and> json_get (lit ''blocked'') tv = Some (json_opt_str m) \<and> json_get (lit ''fraction'') tv = Some (JNum (Float f))"
  by (simp_all add: status_value_def json_obj_get Let_def)

lemma status_after_readings:
  assumes "run_setup b pf fresh drawn cfg = Inr d"
    and "cs_started cs = cs_started (d_control d)" and "cs_socks_listen cs = cs_socks_listen (d_control d)"
    and "cs_bootstrap cs = poll_status message (cs_bootstrap (d_control d)) (readings @ [s])"
  shows "\<exists>v tv p. dispatch printable raised (lit ''status'') cs w = ROk v
    \<and> json_get (lit ''uptime_secs'') v = Some (json_u64 (of_nat ((clock w - start_time pf) div 1000000000)))
    \<and> json_get (lit ''socks_listen'') v = Some (JStr (socket_display (socks_listen cfg)))
    \<and> json_get (lit ''tor'') v = Some tv
    \<and> json_get (lit ''ready'') tv = Some (JBool (ready_for_traffic s))
    \<and> json_get (lit ''blocked'') tv = Some (json_opt_str (map_option message (blocked_by s)))
    \<and> json_get (lit ''fraction'') tv = Some (JNum (Float (fl32 (of_nat p / 1000)))) \<and> p \<le> 1000
    \<and> (\<forall>x. as_frac s = F32 x \<longrightarrow> \<bar>of_nat p - clamped x * 1000\<bar> \<le> 1 + 1 / 2 ^ 15)"
proof -
  have "cs_started cs = start_time pf" "cs_socks_listen cs = socks_listen cfg"
    using assms(1-3) by (auto elim: run_setup_Inr)
  with status_get(1,2) [of cs "clock w"]
  have "json_get (lit ''uptime_secs'') (status_value cs (clock w))
      = Some (json_u64 (of_nat ((clock w - start_time pf) div 1000000000)))"
    "json_get (lit ''socks_listen'') (status_value cs (clock w)) = Some (JStr (socket_display (socks_listen cfg)))"
    by simp_all
  moreover obtain p where read: "bootstrap_read (cs_bootstrap cs) = \<lparr>snap_ready = ready_for_traffic s,
      snap_fraction = F32 (fl32 (of_nat p / 1000)), snap_blocked = map_option message (blocked_by s)\<rparr>"
    and "p \<le> 1000" "\<forall>x. as_frac s = F32 x \<longrightarrow> \<bar>of_nat p - clamped x * 1000\<bar> \<le> 1 + 1 / 2 ^ 15"
    unfolding assms(4) poll_status_last by (rule bootstrap_read_store [of message s])
  moreover note status_get(3) [OF read, of "clock w"]
  ultimately show ?thesis using dispatch_status [of printable raised cs w] by blast
qed

end
