(* ===== verification/Daemon_Live.thy ===== *)
theory Daemon_Live
  imports Daemon_System Daemon_Guarantees
begin

text \<open>
  The running daemon: its connections are the system of connections, its loops are paced, and its
  status command reports the last reading of arti.
\<close>

section \<open>Its connections\<close>

lemma accept_action_simps [simp]:
  "accept_action (Inr (c, a)) = Spawn c a" "accept_action (Inl x) = Backoff 50"
  by (simp_all add: accept_action_def)

text \<open>A step of the connections changes at most one of them, and nothing else of the daemon.\<close>

lemma sys_step_one:
  assumes "sys_step io fresh answers c c'" and "length (snd c') = length (snd c)"
  shows "\<exists>i. \<forall>j < length (snd c). j \<noteq> i \<longrightarrow> snd c' ! j = snd c ! j"
proof -
  have "snd c' = snd c \<or> (\<exists>i p. snd c' = (snd c)[i := p])"
    using assms by (induction rule: sys_step.induct) auto
  then show ?thesis by (elim disjE exE) (simp, metis nth_list_update_neq)
qed

lemma daemon_step_effect:
  assumes "daemon_step st io fresh answers a d d'"
  shows "case a of
      Connections \<Rightarrow> sys_step io fresh answers (r_world d, r_tasks d) (r_world d', r_tasks d')
        \<and> length (r_tasks d') = length (r_tasks d)
        \<and> (\<exists>i. \<forall>j < length (r_tasks d). j \<noteq> i \<longrightarrow> r_tasks d' ! j = r_tasks d ! j)
        \<and> r_socks d' = r_socks d \<and> r_cell d' = r_cell d \<and> r_booting d' = r_booting d \<and> r_bound d' = r_bound d
        \<and> r_control d' = r_control d \<and> r_hup d' = r_hup d \<and> r_end d' = r_end d
    | AcceptLoop \<Rightarrow> r_world d' = r_world d
        \<and> (r_tasks d' = r_tasks d \<or> (\<exists>s peer. r_tasks d' = r_tasks d @ [Negotiating s peer]))
    | _ \<Rightarrow> r_world d' = r_world d \<and> r_tasks d' = r_tasks d"
  using assms
proof (induction rule: daemon_step.induct)
  case (connection d w ts res)
  with sys_step_one [OF connection(2)] show ?case by (simp add: logged_def)
qed (simp_all add: running_defs)

lemma daemon_step_projects:
  "daemon_step st io fresh answers a d d' \<Longrightarrow>
   sys_step io fresh answers (r_world d, r_tasks d) (r_world d', r_tasks d')
   \<or> r_world d' = r_world d \<and> r_tasks d' = r_tasks d"
  by (drule daemon_step_effect) (auto split: actor.splits intro: sys_step.accepted)

lemma daemon_reach_projects:
  "daemon_reach st io fresh answers d0 d \<Longrightarrow> r_tasks d0 = [] \<Longrightarrow>
   reachable io fresh answers (r_world d0) (r_world d, r_tasks d)"
proof (induction rule: daemon_reach.induct)
  case at_start
  then show ?case using reachable.start [of io fresh answers "r_world d0"] by simp
next
  case (later d d')
  then show ?case using daemon_step_projects [OF later(2)] by (metis reachable.step)
qed

lemma started_simps [simp]:
  "r_world (started d) = d_world d" "r_tasks (started d) = []" "r_cell (started d) = cs_bootstrap (d_control d)"
  "r_readings (started d) = []" "r_failed_accepts (started d) = 0" "r_socks (started d) = SocksStarting"
  "r_next_poll (started d) = clock (d_world d)" "r_end (started d) = None" "r_control (started d) = []"
  "r_bound (started d) = False"
  by (simp_all add: started_def)

text \<open>
  C4. The daemon's connections are the system of connections. The shared state and the
  connections of a running daemon are a reachable state of the system, whatever its other tasks
  do in between; the step of a connection is a step of the system that changes no other
  connection and no other task; the accept loop leaves the shared state and the connections there
  are alone and adds at most one new one; and no step of the control server or its connections,
  of the status, bootstrap and signal tasks changes the shared state or any connection.
\<close>

theorem daemon_refines:
  assumes "run_setup b pf fresh drawn cfg = Inr d0" and "daemon_reach st io fresh answers (started d0) d"
  shows "initial fresh (d_world d0) \<and> reachable io fresh answers (d_world d0) (r_world d, r_tasks d)
    \<and> (\<forall>a d'. daemon_step st io fresh answers a d d' \<longrightarrow>
         (case a of
            Connections \<Rightarrow> sys_step io fresh answers (r_world d, r_tasks d) (r_world d', r_tasks d')
              \<and> length (r_tasks d') = length (r_tasks d)
              \<and> (\<exists>i. \<forall>j < length (r_tasks d). j \<noteq> i \<longrightarrow> r_tasks d' ! j = r_tasks d ! j)
              \<and> r_socks d' = r_socks d \<and> r_cell d' = r_cell d \<and> r_booting d' = r_booting d \<and> r_bound d' = r_bound d
              \<and> r_control d' = r_control d \<and> r_hup d' = r_hup d \<and> r_end d' = r_end d
          | AcceptLoop \<Rightarrow> r_world d' = r_world d
              \<and> (r_tasks d' = r_tasks d \<or> (\<exists>s peer. r_tasks d' = r_tasks d @ [Negotiating s peer]))
          | _ \<Rightarrow> r_world d' = r_world d \<and> r_tasks d' = r_tasks d))"
  using daemon_reach_projects [OF assms(2)] run_setup_initial(1) [OF assms(1)] daemon_step_effect
  by (intro conjI allI impI) (simp, simp, blast)

section \<open>Pace\<close>

definition paced :: "nat \<Rightarrow> ('s, 'tok, 'client, 'up, 'b) running \<Rightarrow> bool" where
  "paced t0 d \<longleftrightarrow>
     (case r_socks d of
        SocksBackoff u \<Rightarrow> t0 + r_failed_accepts d * 50000000 \<le> u \<and> u \<le> clock (r_world d) + 50000000
      | _ \<Rightarrow> t0 + r_failed_accepts d * 50000000 \<le> clock (r_world d))
     \<and> t0 + length (r_readings d) * (2 * nanos) \<le> r_next_poll d \<and> r_next_poll d \<le> clock (r_world d) + 2 * nanos"

lemma sys_step_clock: "sys_step io fresh answers c c' \<Longrightarrow> clock (fst c) \<le> clock (fst c')"
proof (induction rule: sys_step.induct)
  case (requested i ts s peer host port u s' w a t w')
  then show ?case by (auto simp: begin_connect_def Let_def split: prod.splits)
next
  case (copied i ts s k up x w bytes s' w')
  obtain n m where "w' = add_traffic (row k) n m w" using metered_step_shared [OF copied(3)] by blast
  then show ?case by (simp add: add_traffic_def meter_client_def meter_upstream_def)
qed simp_all

lemma paced_step: "daemon_step st io fresh answers a d d' \<Longrightarrow> paced t0 d \<Longrightarrow> paced t0 d'"
proof (induction rule: daemon_step.induct)
  case (connection d w ts res)
  then have "clock (r_world d) \<le> clock w" using sys_step_clock [OF connection(2)] by simp
  with connection show ?case by (auto simp: paced_def logged_def split: socks_loop.splits)
next
  case (socks_accepted d c a s peer)
  then show ?case by (auto simp: paced_def split: socks_loop.splits)
next
  case (socks_accept_failed d x ms)
  then show ?case by (auto simp: paced_def running_defs split: socks_loop.splits)
qed (auto simp: paced_def running_defs split: socks_loop.splits)

lemma paced_reach:
  "daemon_reach st io fresh answers d0 d \<Longrightarrow> paced t0 d0 \<Longrightarrow> paced t0 d"
  by (induction rule: daemon_reach.induct) (auto intro: paced_step)

text \<open>
  C13. No task spins: up to any time the SOCKS accept loop has failed at most once, and once more
  for every 50 ms since the start, even if every accept fails; and the status was read at
  most once, and once more for every two seconds.
\<close>

theorem daemon_paced:
  assumes "daemon_reach st io fresh answers (started d0) d"
  shows "r_failed_accepts d \<le> 1 + (clock (r_world d) - clock (d_world d0)) div 50000000
    \<and> length (r_readings d) \<le> 1 + (clock (r_world d) - clock (d_world d0)) div 2000000000"
proof -
  have "paced (clock (d_world d0)) (started d0)" by (simp add: paced_def)
  with assms have p: "paced (clock (d_world d0)) d" by (rule paced_reach)
  let ?t = "clock (r_world d) - clock (d_world d0)"
  have "r_failed_accepts d * 50000000 \<le> ?t + 50000000"
    using p by (auto simp: paced_def split: socks_loop.splits)
  then have "r_failed_accepts d * 50000000 div 50000000 \<le> (?t + 50000000) div 50000000" by (rule div_le_mono)
  moreover
  have "clock (d_world d0) + length (r_readings d) * 2000000000 \<le> r_next_poll d"
    "r_next_poll d \<le> clock (r_world d) + 2000000000"
    using p by (simp_all add: paced_def nanos_def)
  then have "length (r_readings d) * 2000000000 \<le> ?t + 2000000000" by arith
  then have "length (r_readings d) * 2000000000 div 2000000000 \<le> (?t + 2000000000) div 2000000000" by (rule div_le_mono)
  ultimately show ?thesis by simp
qed

text \<open>An example: the listener comes up, an accept fails, the status is read once.\<close>

definition example_reading :: "unit arti_status" where
  "example_reading = \<lparr>ready_for_traffic = True, as_frac = F32 1, blocked_by = None\<rparr>"

definition example_setting :: "unit setting" where
  "example_setting =
     \<lparr>transport = Vcl, to_string = (\<lambda>v. []), printable = (\<lambda>c. True), message = (\<lambda>b. []), listen_addr = default_socks_listen,
      socket_path = DEFAULT_SOCKET, start_state = d_control (example_daemon Shared), timeout_secs = 120\<rparr>"

lemma example_daemon_run:
  obtains d :: "(conn, nat, unit, unit, unit) running" where
    "daemon_reach example_setting conn_ops id any_answer (started (example_daemon Shared)) d"
    "r_failed_accepts d = 1" "r_readings d = [example_reading]" "clock (r_world d) = 0" "r_world d = example_world Shared"
    "r_end d = None" "r_control d = []" "r_bound d = False" "r_tasks d = []"
proof -
  let ?d0 = "started (example_daemon Shared) :: (conn, nat, unit, unit, unit) running"
  let ?step = "daemon_step example_setting conn_ops id any_answer"
  let ?reach = "daemon_reach example_setting conn_ops id any_answer ?d0"
  let ?d1 = "logged [listening_log (listen_addr example_setting) (tor (r_world ?d0))] (?d0\<lparr>r_socks := SocksAccepting\<rparr>)"
  have "?step AcceptLoop ?d0 ?d1" by (rule daemon_step.socks_bound) simp_all
  with daemon_reach.at_start have d1: "?reach ?d1" by (rule daemon_reach.later)
  obtain d2 where d2: "?step AcceptLoop ?d1 d2" "r_failed_accepts d2 = 1" "r_readings d2 = []" "r_world d2 = example_world Shared"
      "r_end d2 = None" "r_control d2 = []" "r_bound d2 = False" "r_next_poll d2 = 0" "r_tasks d2 = []"
  proof
    show "?step AcceptLoop ?d1 (logged (accept_log (Inl (Foreign []) :: cause + conn \<times> socket_addr))
        (?d1\<lparr>r_socks := SocksBackoff (clock (r_world ?d1) + 50 * 1000000), r_failed_accepts := Suc (r_failed_accepts ?d1)\<rparr>))"
      by (rule daemon_step.socks_accept_failed) (simp_all add: logged_def)
  qed (simp_all add: logged_def started_def example_daemon_def example_world_def)
  let ?d3 = "d2\<lparr>r_cell := bootstrap_store (bootstrap_status (message example_setting) example_reading) (r_cell d2),
         r_next_poll := clock (r_world d2) + 2 * nanos, r_readings := r_readings d2 @ [example_reading]\<rparr>"
  have "?step StatusTask d2 ?d3" by (rule daemon_step.status_polled) (simp_all add: d2 example_world_def)
  with daemon_reach.later [OF d1 d2(1)] have "?reach ?d3" by (rule daemon_reach.later)
  then show thesis by (rule that) (use d2 in \<open>simp_all add: example_world_def\<close>)
qed

theorem daemon_refines_witness:
  "\<exists>d :: (conn, nat, unit, unit, unit) running. reachable conn_ops id any_answer (example_world Shared) (r_world d, r_tasks d)
     \<and> r_failed_accepts d = 1"
proof -
  obtain d :: "(conn, nat, unit, unit, unit) running" where
    d: "daemon_reach example_setting conn_ops id any_answer (started (example_daemon Shared)) d" "r_failed_accepts d = 1"
    by (rule example_daemon_run)
  from daemon_refines [OF example_setup [of Vcl] d(1)] d(2) show ?thesis by (auto simp: example_daemon_def)
qed

theorem daemon_paced_witness:
  "\<exists>d :: (conn, nat, unit, unit, unit) running. r_failed_accepts d = 1 \<and> length (r_readings d) \<le> 1"
proof -
  obtain d :: "(conn, nat, unit, unit, unit) running" where
    d: "daemon_reach example_setting conn_ops id any_answer (started (example_daemon Shared)) d" "r_failed_accepts d = 1"
      "clock (r_world d) = 0"
    by (rule example_daemon_run)
  from daemon_paced [OF d(1)] d show ?thesis by auto
qed

section \<open>What the control socket says\<close>

lemma cell_step:
  "daemon_step st io fresh answers a d d' \<Longrightarrow> r_cell d = poll_status (message st) b (r_readings d) \<Longrightarrow>
   r_cell d' = poll_status (message st) b (r_readings d')"
  by (induction rule: daemon_step.induct) (simp_all add: running_defs poll_status_last)

lemma cell_reach:
  "daemon_reach st io fresh answers d0 d \<Longrightarrow> r_cell d0 = poll_status (message st) b (r_readings d0) \<Longrightarrow>
   r_cell d = poll_status (message st) b (r_readings d)"
  by (induction rule: daemon_reach.induct) (blast intro: cell_step)+

text \<open>
  C32. The status command of the running daemon reports the last reading of arti: ready exactly when
  it was, the message of what blocked it, its fraction in whole thousandths; and the configured
  listener and the whole seconds since the start.
\<close>

theorem daemon_status:
  assumes "run_setup b pf fresh drawn cfg = Inr d0" and "start_state st = d_control d0"
    and "daemon_reach st io fresh answers (started d0) d" and "r_readings d = readings @ [s]"
  shows "\<exists>v tv p. dispatch (printable st) raised (lit ''status'') (control_view st d) (r_world d) = ROk v
    \<and> json_get (lit ''uptime_secs'') v = Some (json_u64 (of_nat ((clock (r_world d) - start_time pf) div 1000000000)))
    \<and> json_get (lit ''socks_listen'') v = Some (JStr (socket_display (socks_listen cfg)))
    \<and> json_get (lit ''tor'') v = Some tv
    \<and> json_get (lit ''ready'') tv = Some (JBool (ready_for_traffic s))
    \<and> json_get (lit ''blocked'') tv = Some (json_opt_str (map_option (message st) (blocked_by s)))
    \<and> json_get (lit ''fraction'') tv = Some (JNum (Float (fl32 (of_nat p / 1000)))) \<and> p \<le> 1000
    \<and> (\<forall>x. as_frac s = F32 x \<longrightarrow> \<bar>of_nat p - clamped x * 1000\<bar> \<le> 1 + 1 / 2 ^ 15)"
proof -
  have "cs_bootstrap (control_view st d) = poll_status (message st) (cs_bootstrap (d_control d0)) (readings @ [s])"
    using cell_reach [OF assms(3), of "cs_bootstrap (d_control d0)"] assms(4)
    by (simp add: control_view_def) (simp add: poll_status_def)
  moreover have "cs_started (control_view st d) = cs_started (d_control d0)"
    "cs_socks_listen (control_view st d) = cs_socks_listen (d_control d0)"
    by (simp_all add: control_view_def assms(2))
  ultimately show ?thesis by (intro status_after_readings [OF assms(1)])
qed

theorem daemon_status_witness:
  "\<exists>(d :: (conn, nat, unit, unit, unit) running) v tv.
     dispatch (\<lambda>c. True) (Inr ()) (lit ''status'') (control_view example_setting d) (r_world d) = ROk v
     \<and> json_get (lit ''socks_listen'') v = Some (JStr (lit ''127.0.0.1:9050''))
     \<and> json_get (lit ''tor'') v = Some tv \<and> json_get (lit ''ready'') tv = Some (JBool True)"
proof -
  obtain d :: "(conn, nat, unit, unit, unit) running" where
    d: "daemon_reach example_setting conn_ops id any_answer (started (example_daemon Shared)) d"
      "r_readings d = [] @ [example_reading]"
    by (rule example_daemon_run) simp
  have "start_state example_setting = d_control (example_daemon Shared)" by (simp add: example_setting_def)
  from daemon_status [OF example_setup [of Vcl] this d, of "Inr ()"] show ?thesis
    by (auto simp: example_reading_def example_setting_def default_config_def default_socks_listen_text)
qed

end
