(* ===== verification/Socks_Texts.thy ===== *)
theory Socks_Texts
  imports Proxy_Guarantees
begin

text \<open>
  The texts the SOCKS server makes: the destination it shows and hands to arti determines what
  the client asked for, and the level at which the end of a connection is logged.
\<close>

section \<open>Destinations\<close>

lemma no_colon_dec: "58 \<notin> set (dec n)"
  using dec_digits [of 58 n] by auto

lemma append_sep_eq:
  assumes "c \<notin> set b" and "c \<notin> set d"
  shows "a @ c # b = a' @ c # d \<longleftrightarrow> a = a' \<and> b = d"
proof
  assume eq: "a @ c # b = a' @ c # d"
  have tail: "rev (takeWhile (\<lambda>x. x \<noteq> c) (rev (p @ c # q))) = q" if "c \<notin> set q" for p q
  proof -
    have "takeWhile (\<lambda>x. x \<noteq> c) (rev q @ c # rev p) = rev q"
      using that by (subst takeWhile_append2) auto
    then show ?thesis by simp
  qed
  have "b = d" using tail [OF assms(1), of a] tail [OF assms(2), of a'] eq by simp
  with eq show "a = a' \<and> b = d" by simp
qed simp

lemma target_text_inject: "target_text h p = target_text h' p' \<longleftrightarrow> h = h' \<and> p = p'"
  using append_sep_eq [OF no_colon_dec no_colon_dec, of h "unat p" h' "unat p'"]
  by (auto simp: target_text_def lit_colon word_unat_eq_iff)

lemma ipv4_no_colon: "58 \<notin> set (ipv4_display a)"
  by (cases a) (simp add: dec_u8_no_sep lit_dot)

lemma hex_join_colon: "2 \<le> length ns \<Longrightarrow> 58 \<in> set (hex_join ns)"
proof (cases ns)
  case (Cons n ms)
  moreover assume "2 \<le> length ns"
  ultimately obtain m ks where "ns = n # m # ks" by (cases ms) auto
  then show ?thesis by (simp add: hex_join_def lit_colon)
qed simp

lemma ipv6_colon: "ipv6_wf a \<Longrightarrow> 58 \<in> set (ipv6_display a)"
proof (cases "ipv4_mapped (octets a)")
  case (Some b)
  then have "ipv6_display a = lit ''::ffff:'' @ ipv4_display b" by (simp add: ipv6_display_def)
  moreover have "58 \<in> set (lit ''::ffff:'')" by (simp add: lit_def)
  ultimately show ?thesis by simp
next
  case None
  assume wf: "ipv6_wf a"
  obtain i n where z: "zero_span (segments a) 0 (0, 0) (0, 0) = (i, n)" by (cases "zero_span (segments a) 0 (0, 0) (0, 0)")
  show ?thesis
    using hex_join_colon [of "segments a"] length_segments [OF wf] None z
    by (auto simp: ipv6_display_def lit_colon Let_def)
qed

text \<open>
  A destination is unambiguous: the text \<open>host:port\<close> of a row determines host and port even
  for hosts with colons, and the hosts made from addresses determine the address and its
  family.
\<close>

theorem target_text_unambiguous:
  assumes "ipv6_wf x" and "ipv6_wf y"
  shows "(target_text h p = target_text h' p' \<longleftrightarrow> h = h' \<and> p = p')
    \<and> (target_text (ipv4_display a) p = target_text (ipv4_display b) p' \<longleftrightarrow> a = b \<and> p = p')
    \<and> (target_text (ipv6_display x) p = target_text (ipv6_display y) p' \<longleftrightarrow> x = y \<and> p = p')
    \<and> target_text (ipv4_display a) p \<noteq> target_text (ipv6_display x) p'"
  using ipv6_display_inject [OF assms] ipv4_no_colon [of a] ipv6_colon [OF assms(1)]
  by (auto simp: target_text_inject)

theorem target_text_unambiguous_witness:
  "target_text (ipv6_display (Ipv6 (replicate 15 0 @ [1]))) 853 \<noteq> target_text (ipv6_display (Ipv6 (replicate 16 0))) 853"
proof -
  have "ipv6_wf (Ipv6 (replicate 15 0 @ [1]))" "ipv6_wf (Ipv6 (replicate 16 0))"
    by (simp_all add: ipv6_wf_def)
  from target_text_unambiguous [OF this, THEN conjunct2, THEN conjunct2, THEN conjunct1]
  have "target_text (ipv6_display (Ipv6 (replicate 15 0 @ [1]))) 853 = target_text (ipv6_display (Ipv6 (replicate 16 0))) 853
      \<longleftrightarrow> (replicate 15 0 @ [1] :: u8 list) = replicate 16 0"
    by (simp only: ipv6_addr.inject simp_thms)
  moreover have "last (replicate 15 0 @ [1] :: u8 list) \<noteq> last (replicate 16 0)" by simp
  ultimately show ?thesis by metis
qed

section \<open>Log levels\<close>

text \<open>
  A request that arti fails is logged as a warning, except when an io error of a client
  disconnect occurs anywhere in arti's chain of causes: then it is logged as a mere close,
  at debug level.
\<close>

theorem tor_failure_log:
  assumes "handshake io s = (Inr (host, port, name), s1)"
    and "begin_connect fresh peer host port name w = ((a, t), w1)"
    and "connect_with_prefs (client (tor w1)) (host, port) t = Inl e"
    and "send_reply io REP_GENERAL_FAILURE s1 = (Inr u, s2)"
  shows "connection_log peer (fst (handle io fresh connect_with_prefs copy peer s w)) =
    (if \<exists>k d. IoCause (IoError k d) \<in> set e \<and> k \<in> {UnexpectedEof, BrokenPipe, ConnectionReset, ConnectionAborted}
     then [Logged SevDebug (lit ''SOCKS connection closed'') [PeerField peer, ErrorField (Text fail_closed_text)]]
     else [Logged SevWarn (lit ''SOCKS connection failed'') [PeerField peer, ErrorField (Text fail_closed_text)]])"
proof -
  have "fst (handle io fresh connect_with_prefs copy peer s w)
      = Inl (Text fail_closed_text # Text (lit ''opening anonymised Tor stream'') # e)"
    using assms by (simp add: handle_def connect_result_def proxy_def tor_failed_def)
  moreover have "list_ex (\<lambda>c. case c of IoCause x \<Rightarrow> benign_kind (kind x) | _ \<Rightarrow> False) e
      \<longleftrightarrow> (\<exists>k d. IoCause (IoError k d) \<in> set e \<and> k \<in> {UnexpectedEof, BrokenPipe, ConnectionReset, ConnectionAborted})"
    (is "?l \<longleftrightarrow> ?r")
  proof
    assume ?l
    then obtain c where c: "c \<in> set e" "case c of IoCause x \<Rightarrow> benign_kind (kind x) | _ \<Rightarrow> False"
      by (auto simp: list_ex_iff)
    then obtain x where x: "c = IoCause x" "benign_kind (kind x)" by (auto split: cause.splits)
    with c(1) show ?r by (cases x) (auto simp: benign_kind_def)
  next
    assume ?r
    then show ?l by (force simp: list_ex_iff benign_kind_def)
  qed
  ultimately show ?thesis by (simp add: connection_log_def is_benign_disconnect_def error_field_def)
qed


theorem tor_failure_log_witness:
  "connection_log default_peer (fst (handle conn_ops id (\<lambda>c addr t. Inl [Foreign [], IoCause (IoError ConnectionReset [])])
     (\<lambda>up c. ([], Inr ())) default_peer (example_conn [example_request]) (example_world PerQuery)))
   = [Logged SevDebug (lit ''SOCKS connection closed'') [PeerField default_peer, ErrorField (Text fail_closed_text)]]"
proof -
  let ?e = "[Foreign [], IoCause (IoError ConnectionReset [])]"
  obtain s1 where h: "handshake conn_ops (example_conn [example_request]) = (Inr (lit ''a.onion'', 853, Some (lit ''dns'')), s1)"
    and room: "10 \<le> tx_room s1"
    by (rule example_handshakes)
  obtain a t w1 where b: "begin_connect id default_peer (lit ''a.onion'') 853 (Some (lit ''dns'')) (example_world PerQuery) = ((a, t), w1)"
    by (metis prod.collapse)
  obtain s2 where r: "send_reply conn_ops REP_GENERAL_FAILURE s1 = (Inr (), s2)"
    using conn.send_reply_roomy [OF room] by blast
  have "(\<lambda>c addr t. Inl ?e) (client (tor w1)) (lit ''a.onion'', 853 :: u16) t = Inl ?e" by simp
  from tor_failure_log [OF h b this r] show ?thesis by simp
qed

end
