(* ===== verification/Socks_Log.thy ===== *)
theory Socks_Log
  imports Socks_Texts
begin

text \<open>
  What a SOCKS connection leaves in the log. The request line with its destination and
  username has the level debug; under the default filter a connection leaves at most one line,
  whose text comes from a fixed list, is about a single protocol byte, or is an io error of the
  client's stream.
\<close>

section \<open>The errors of a program\<close>

text \<open>\<open>fails_with p E\<close>: every error of \<open>p\<close> satisfies \<open>E\<close>. The rules follow the program.\<close>

definition fails_with :: "('s, 'a) prog \<Rightarrow> (error \<Rightarrow> bool) \<Rightarrow> bool" where
  "fails_with p E \<longleftrightarrow> (\<forall>s e s'. p s = (Inl e, s') \<longrightarrow> E e)"

lemma fails_withD: "fails_with p E \<Longrightarrow> p s = (Inl e, s') \<Longrightarrow> E e"
  unfolding fails_with_def by blast

lemma fails_ret: "fails_with (ret a) E"
  by (simp add: fails_with_def prog_simps)

lemma fails_throw: "E e \<Longrightarrow> fails_with (throw e) E"
  by (simp add: fails_with_def prog_simps)

lemma fails_bail: "E [Text m] \<Longrightarrow> fails_with (bail m) E"
  by (simp add: fails_with_def prog_simps)

lemma fails_io: "(\<And>x. E [IoCause x]) \<Longrightarrow> fails_with (lift_io p) E"
  by (auto simp: fails_with_def lift_io_def split: prod.splits sum.splits)

lemma fails_context: "(\<And>e. E (Text m # e)) \<Longrightarrow> fails_with (with_context m p) E"
  by (auto simp: fails_with_def with_context_def split: prod.splits sum.splits)

lemma fails_seq: "fails_with p E \<Longrightarrow> (\<And>a. fails_with (k a) E) \<Longrightarrow> fails_with (and_then p k) E"
  unfolding fails_with_def by (auto simp: and_then_def split: prod.splits sum.splits)

lemma fails_catch:
  assumes "fails_with p E'" and "\<And>e. E' e \<Longrightarrow> fails_with (h e) E"
  shows "fails_with (catch p h) E"
  using assms unfolding fails_with_def
  by (fastforce simp: catch_def split: prod.splits sum.splits)

lemma fails_if: "(c \<Longrightarrow> fails_with p E) \<Longrightarrow> (\<not> c \<Longrightarrow> fails_with q E) \<Longrightarrow> fails_with (if c then p else q) E"
  by simp

lemma fails_option:
  "(\<And>a. fails_with (f a) E) \<Longrightarrow> fails_with p E \<Longrightarrow> fails_with (case x of Some a \<Rightarrow> f a | None \<Rightarrow> p) E"
  by (cases x) simp_all

lemmas fails_rules = fails_ret fails_throw fails_bail fails_io fails_context fails_seq fails_if fails_option

section \<open>The errors of the negotiation\<close>

text \<open>
  Every text the negotiation puts in front of an error: constant, or with the one byte of
  the protocol it is about (a version, a command, an address type).
\<close>

definition constant_texts :: "rstr list" where
  "constant_texts = map lit
     [''reading SOCKS greeting'', ''reading SOCKS auth methods'', ''client offered no acceptable SOCKS auth method'',
      ''reading RFC1929 auth version'', ''SOCKS username is not UTF-8'', ''reading SOCKS request'',
      ''SOCKS domain name is not UTF-8'']"

definition byte_texts :: "u8 \<Rightarrow> rstr list" where
  "byte_texts b =
     [lit ''not a SOCKS5 client (version '' @ dec_byte b @ lit '')'',
      lit ''bad RFC1929 auth version '' @ dec_byte b, lit ''bad SOCKS request version '' @ dec_byte b,
      lit ''unsupported SOCKS command '' @ dec_byte b @ lit '' (only CONNECT)'',
      lit ''unsupported SOCKS address type '' @ dec_byte b]"

fun public_cause :: "cause \<Rightarrow> bool" where
  "public_cause (Text t) \<longleftrightarrow> t \<in> set constant_texts \<or> (\<exists>b. t \<in> set (byte_texts b))"
| "public_cause (IoCause x) = True"
| "public_cause _ = False"

definition public_error :: "error \<Rightarrow> bool" where
  "public_error e \<longleftrightarrow> e \<noteq> [] \<and> public_cause (outermost e)"

lemma public_error_Cons [simp]: "public_error (c # e) \<longleftrightarrow> public_cause c"
  by (simp add: public_error_def)

lemmas public_texts = constant_texts_def byte_texts_def

lemma fails_read_userpass: "fails_with (read_userpass io) public_error"
  unfolding read_userpass_def by (intro fails_rules) (auto simp: public_texts)

lemma fails_send_reply: "fails_with (send_reply io rep) public_error"
  unfolding send_reply_def by (intro fails_rules) simp

lemma fails_read_target: "fails_with (read_target io atyp) public_error"
  unfolding read_target_def by (intro fails_rules) (auto simp: public_texts)

lemma fails_negotiate_method: "fails_with (negotiate_method io) public_error"
  unfolding negotiate_method_def
  by (intro fails_rules fails_read_userpass) (auto simp: public_texts)

lemma fails_read_request: "fails_with (read_request io) public_error"
  unfolding read_request_def
  by (intro fails_rules fails_send_reply fails_catch [OF fails_read_target]) (auto simp: public_texts)

lemma fails_handshake: "fails_with (handshake io) public_error"
  unfolding handshake_def
  by (intro fails_seq fails_negotiate_method fails_read_request) (auto intro: fails_ret split: prod.split)

section \<open>The log of a connection\<close>

text \<open>The errors after the request was read: two constant texts, or an io error of a reply.\<close>

definition outcome_cause :: "cause \<Rightarrow> bool" where
  "outcome_cause c \<longleftrightarrow> c = Text fail_closed_text \<or> c = Text (lit ''proxying SOCKS stream'') \<or> (\<exists>x. c = IoCause x)"

lemma send_reply_error: "send_reply io rep s = (Inl e, s') \<Longrightarrow> \<exists>x. e = [IoCause x]"
  by (auto simp: send_reply_def lift_io_def split: prod.splits sum.splits)

lemma handle_error:
  assumes "handle io fresh connect_with_prefs copy peer s w = (Inl e, s', w')"
  shows "case fst (handshake io s) of Inl e' \<Rightarrow> e = e' | Inr _ \<Rightarrow> outcome_cause (outermost e)"
  using assms
proof (cases rule: handle_courses)
  case (refused e')
  then show ?thesis by simp
next
  case (failed host port user s1 a t w1 e' w2)
  then have "e = Text fail_closed_text # Text (lit ''opening anonymised Tor stream'') # e'
      \<or> (\<exists>x. e = [IoCause x])"
    by (auto simp: tor_failed_def Let_def split: prod.splits sum.splits dest: send_reply_error)
  with failed(1) show ?thesis by (auto simp: outcome_cause_def)
next
  case (unanswered host port user s1 a t w1 up e')
  then show ?thesis using send_reply_error by (fastforce simp: outcome_cause_def)
next
  case (spliced host port user s1 a t w1 up s2 ops res bytes w3)
  then show ?thesis by (auto simp: splice_result_def outcome_cause_def split: sum.splits)
qed

lemma visible_connection_log:
  "visible info_filter (connection_log peer r) =
     (case r of
        Inr _ \<Rightarrow> []
      | Inl e \<Rightarrow> if is_benign_disconnect e then []
               else [Logged SevWarn (lit ''SOCKS connection failed'') [PeerField peer, error_field e]])"
  by (simp add: connection_log_def split: sum.split)

text \<open>
  C10. The log keeps no trace of what is proxied. Whatever the client sends, wherever it connects and
  however it ends, at the default level of the log a connection leaves nothing, or one warning
  with the peer's address and one cause. That cause is an io error of the client's stream, or
  before the request was read a constant text or a text about one byte of the protocol, and
  after it one of two constant texts: never the destination, the username or the password. The
  line with destination and username is written, before the others and exactly once per
  request, but only shows at the level debug.
\<close>

theorem log_private:
  assumes "spawn_connection io fresh connect_with_prefs copy peer s w = (ev, s', w')"
  shows "(visible info_filter ev = []
      \<or> (\<exists>c. visible info_filter ev = [Logged SevWarn (lit ''SOCKS connection failed'') [PeerField peer, ErrorField c]]
           \<and> (case fst (handshake io s) of Inl _ \<Rightarrow> public_cause c | Inr _ \<Rightarrow> outcome_cause c)))
    \<and> (case fst (handshake io s) of
         Inl _ \<Rightarrow> length ev = 1
       | Inr (host, port, name) \<Rightarrow> length ev \<le> 2 \<and> hd ev =
           Logged SevDebug (lit ''SOCKS CONNECT'') [PeerField peer, TargetField (target_text host port), UserField name])"
proof -
  obtain r t v where h: "handle io fresh connect_with_prefs copy peer s w = (r, t, v)" by (metis prod.collapse)
  define req where "req = (case fst (handshake io s) of
      Inl _ \<Rightarrow> [] | Inr (host, port, name) \<Rightarrow> [request_log peer host port name])"
  have ev: "ev = req @ connection_log peer r"
    using assms h by (simp add: spawn_connection_def req_def)
  have req: "visible info_filter req = []"
    by (auto simp: req_def request_log_def split: sum.split)
  have cause: "case fst (handshake io s) of Inl _ \<Rightarrow> public_cause (outermost e) | Inr _ \<Rightarrow> outcome_cause (outermost e)"
    if "r = Inl e" for e
  proof (cases "fst (handshake io s)")
    case (Inl e')
    then have "handshake io s = (Inl e', snd (handshake io s))" by (metis prod.collapse)
    from fails_withD [OF fails_handshake this] have "public_cause (outermost e')" by (simp add: public_error_def)
    with handle_error [OF h [unfolded that]] Inl show ?thesis by simp
  next
    case (Inr x)
    with handle_error [OF h [unfolded that]] show ?thesis by simp
  qed
  have "length (connection_log peer r) \<le> 1" by (simp add: connection_log_def split: sum.split)
  moreover have "\<exists>e. r = Inl e" if "fst (handshake io s) = Inl e'" for e'
    using h that by (auto simp: handle_def split: prod.splits)
  ultimately show ?thesis
    using cause req by (auto simp: ev req_def request_log_def visible_connection_log connection_log_def error_field_def
        split: sum.splits if_splits)
qed

theorem log_private_witness:
  "\<exists>ev s' w'. spawn_connection conn_ops id (\<lambda>c addr t. Inl [Foreign (lit ''a.onion'')]) (\<lambda>(up :: unit) c. ([], Inr ()))
       default_peer (example_conn [example_request]) (example_world PerQuery) = (ev, s', w')
     \<and> hd ev = Logged SevDebug (lit ''SOCKS CONNECT'')
         [PeerField default_peer, TargetField (target_text (lit ''a.onion'') 853), UserField (Some (lit ''dns''))]
     \<and> length (visible info_filter ev) \<le> 1"
proof -
  obtain s1 where h: "handshake conn_ops (example_conn [example_request]) = (Inr (lit ''a.onion'', 853, Some (lit ''dns'')), s1)"
    by (rule example_handshakes)
  obtain ev s' w' where run: "spawn_connection conn_ops id (\<lambda>c addr t. Inl [Foreign (lit ''a.onion'')]) (\<lambda>(up :: unit) c. ([], Inr ()))
      default_peer (example_conn [example_request]) (example_world PerQuery) = (ev, s', w')"
    by (metis prod.collapse)
  from log_private [OF run] h have "length (visible info_filter ev) \<le> 1" by auto
  moreover from log_private [OF run] h have "hd ev = Logged SevDebug (lit ''SOCKS CONNECT'')
      [PeerField default_peer, TargetField (target_text (lit ''a.onion'') 853), UserField (Some (lit ''dns''))]"
    by simp
  ultimately show ?thesis using run by blast
qed

end
