(* ===== verification/Daemon_Log.thy ===== *)
theory Daemon_Log
  imports Daemon_Live Socks_Log
begin

text \<open>
  The log of the running daemon, over all interleavings of its tasks: at the default level no
  line names a destination or a username, and at the level debug there is exactly one request
  line for each request.
\<close>

section \<open>The lines of one segment\<close>

lemma phase_lines_same [simp]: "phase_lines io w res p p = []"
  by (cases p) simp_all

lemma task_lines_same [simp]: "task_lines io w res ts ts = []"
  by (induction ts) (simp_all add: task_lines_def)

lemma task_lines_update:
  "i < length ts \<Longrightarrow> task_lines io w res ts (ts[i := p]) = phase_lines io w res (ts ! i) p"
proof (induction ts arbitrary: i)
  case (Cons q ts)
  show ?case
  proof (cases i)
    case 0
    then show ?thesis by (auto simp: task_lines_def zip_same_conv_map)
  next
    case (Suc j)
    with Cons show ?thesis by (simp add: task_lines_def)
  qed
qed simp

section \<open>Public lines\<close>

fun reveals :: "log_field \<Rightarrow> bool" where
  "reveals (TargetField t) = True"
| "reveals (UserField u) = True"
| "reveals _ = False"

text \<open>
  A line that may be seen by anybody: it names no destination and no user, and if it is about a
  failed connection it has the address of the client and a cause that names neither.
\<close>

fun public_line :: "event \<Rightarrow> bool" where
  "public_line (Printed s) = False"
| "public_line (Logged sev msg fs) \<longleftrightarrow> list_all (\<lambda>x. \<not> reveals x) fs \<and>
     (msg = lit ''SOCKS connection failed'' \<longrightarrow>
       (\<exists>peer c. fs = [PeerField peer, ErrorField c] \<and> (public_cause c \<or> outcome_cause c)))"

fun debug_line :: "event \<Rightarrow> bool" where
  "debug_line (Logged SevDebug msg fs) = True"
| "debug_line _ = False"

definition discreet :: "event list \<Rightarrow> bool" where
  "discreet es \<longleftrightarrow> list_all (\<lambda>x. debug_line x \<or> public_line x) es"

lemma discreet_append [simp]: "discreet (es @ fs) \<longleftrightarrow> discreet es \<and> discreet fs"
  by (simp add: discreet_def)

lemma discreet_Nil [simp]: "discreet []"
  by (simp add: discreet_def)

lemma discreet_connection_log:
  "(\<And>e. r = Inl e \<Longrightarrow> public_cause (outermost e) \<or> outcome_cause (outermost e)) \<Longrightarrow> discreet (connection_log peer r)"
  by (auto simp: discreet_def connection_log_def error_field_def split: sum.split)

lemma discreet_reply:
  "fst (send_reply io rep s) = Inl e \<Longrightarrow> outcome_cause (outermost e)"
proof -
  assume "fst (send_reply io rep s) = Inl e"
  then have "send_reply io rep s = (Inl e, snd (send_reply io rep s))" by (metis prod.collapse)
  from send_reply_error [OF this] show ?thesis by (auto simp: outcome_cause_def)
qed

lemma discreet_refused: "fst (handshake io s) = Inl e \<Longrightarrow> public_cause (outermost e)"
proof -
  assume "fst (handshake io s) = Inl e"
  then have "handshake io s = (Inl e, snd (handshake io s))" by (metis prod.collapse)
  from fails_withD [OF fails_handshake this] show ?thesis by (simp add: public_error_def)
qed

lemma discreet_phase_lines: "discreet (phase_lines io w res p q)"
proof (induction io w res p q rule: phase_lines.induct)
  case (1 io w res s peer s')
  show ?case unfolding phase_lines.simps
    by (rule discreet_connection_log) (cases "fst (handshake io s)", auto dest: discreet_refused)
next
  case (3 io w res s k e s' k' oc)
  show ?case unfolding phase_lines.simps
    by (rule discreet_connection_log)
      (cases "fst (send_reply io REP_GENERAL_FAILURE s)", auto dest: discreet_reply simp: outcome_cause_def)
next
  case (4 io w res s k up s' k' oc)
  show ?case unfolding phase_lines.simps by (rule discreet_connection_log) (blast dest: discreet_reply)
next
  case (5 io w res s k up s' k' oc)
  show ?case unfolding phase_lines.simps
    by (rule discreet_connection_log) (auto simp: splice_result_def outcome_cause_def split: sum.splits)
qed (simp_all add: discreet_def request_log_def)

lemma discreet_task_lines: "discreet (task_lines io w res ts ts')"
  using discreet_phase_lines [of io w res] by (auto simp: discreet_def task_lines_def list_all_iff)

section \<open>Request lines\<close>

definition request_line :: "event \<Rightarrow> bool" where
  "request_line x \<longleftrightarrow> (\<exists>peer target name. x = Logged SevDebug (lit ''SOCKS CONNECT'') [PeerField peer, TargetField target, UserField name])"

definition requests :: "event list \<Rightarrow> nat" where
  "requests es = length (filter request_line es)"

lemma requests_simps [simp]:
  "requests [] = 0" "requests (es @ fs) = requests es + requests fs"
  "requests (x # es) = of_bool (request_line x) + requests es"
  by (simp_all add: requests_def)

lemma requests_connection_log [simp]: "requests (connection_log peer r) = 0"
  by (simp add: connection_log_def request_line_def split: sum.split)

lemma request_line_request_log [simp]: "request_line (request_log peer host port name)"
  by (simp add: request_line_def request_log_def)

lemma requested_phases:
  "\<not> is_requested (Negotiating s peer)" "\<not> is_requested (Refused s)" "is_requested (Connecting s k)"
  "is_requested (FailReply s k e)" "is_requested (OkReply s k up)" "is_requested (Splicing s k up)"
  "is_requested (Ended s k oc)"
  by (simp_all add: is_requested_def)

lemma tasks_requested_update:
  "i < length ts \<Longrightarrow> is_requested p \<longleftrightarrow> is_requested (ts ! i) \<Longrightarrow>
   tasks_with is_requested (ts[i := p]) = tasks_with is_requested ts"
  "i < length ts \<Longrightarrow> \<not> is_requested (ts ! i) \<Longrightarrow> is_requested p \<Longrightarrow>
   tasks_with is_requested (ts[i := p]) = Suc (tasks_with is_requested ts)"
  using tasks_with_update [of i ts is_requested p] by simp_all

lemma requests_step:
  "sys_step io fresh answers c c' \<Longrightarrow> length (snd c') = length (snd c) \<Longrightarrow>
   tasks_with is_requested (snd c') = tasks_with is_requested (snd c) + requests (task_lines io (fst c) res (snd c) (snd c'))"
  by (induction rule: sys_step.induct)
    (simp_all add: task_lines_update requested_phases tasks_requested_update)

section \<open>The log of the daemon\<close>

definition log_ok :: "('s, 'tok, 'client, 'up, 'b) running \<Rightarrow> bool" where
  "log_ok d \<longleftrightarrow> discreet (r_events d) \<and> requests (r_events d) = tasks_with is_requested (r_tasks d)"

lemma other_lines:
  "discreet [listening_log a m]" "\<not> request_line (listening_log a m)"
  "discreet (accept_log r)" "requests (accept_log r) = 0"
  "discreet [bootstrap_task n oc]" "\<not> request_line (bootstrap_task n oc)"
  "discreet [control_listening_log path]" "\<not> request_line (control_listening_log path)"
  "discreet (control_log x)" "requests (control_log x) = 0"
  "discreet (sighup_task n)" "requests (sighup_task n) = 0"
  "discreet [end_log e]" "\<not> request_line (end_log e)"
  by (auto simp: discreet_def requests_def request_line_def listening_log_def accept_log_def bootstrap_task_def
      control_listening_log_def control_log_def sighup_task_def end_log_def error_field_def lit_def dash_def
      list_all_iff filter_empty_conv split: sum.splits daemon_end.splits)

lemma log_ok_step: "daemon_step st io fresh answers a d d' \<Longrightarrow> log_ok d \<Longrightarrow> log_ok d'"
proof (induction rule: daemon_step.induct)
  case (connection d w ts res)
  then show ?case
    using requests_step [OF connection(2), of res] by (simp add: log_ok_def logged_def discreet_task_lines)
next
  case (socks_accepted d c a s peer)
  then show ?case by (simp add: log_ok_def requested_phases)
qed (simp_all add: log_ok_def ended_with_def logged_def other_lines)

lemma log_ok_reach: "daemon_reach st io fresh answers d0 d \<Longrightarrow> log_ok d0 \<Longrightarrow> log_ok d"
  by (induction rule: daemon_reach.induct) (blast intro: log_ok_step)+



end
