(* ===== verification/Daemon_End.thy ===== *)
theory Daemon_End
  imports Daemon_Live
begin

text \<open>
  How the running daemon ends: for which reasons, what its log says then, and that it says so
  only then.
\<close>

section \<open>Reasons\<close>

text \<open>The error of a SOCKS listener that cannot be bound, in the two builds.\<close>

definition socks_bind_error :: "build \<Rightarrow> socket_addr \<Rightarrow> error \<Rightarrow> bool" where
  "socks_bind_error b listen err \<longleftrightarrow> (case b of
      Vcl \<Rightarrow> \<exists>e. err = [Text (lit ''binding SOCKS listener on '' @ socket_display listen @ lit '': '' @ e)]
    | KernelSockets \<Rightarrow> \<exists>e. err = [Text (lit ''binding SOCKS listener on '' @ socket_display listen), IoCause e])"

text \<open>The end of a daemon with its last line, and what it was doing.\<close>

definition ended_so :: "'b setting \<Rightarrow> ('s, 'tok, 'client, 'up, 'b) running \<Rightarrow> daemon_end \<Rightarrow> event \<Rightarrow> bool" where
  "ended_so st d x line \<longleftrightarrow>
     x = Sigterm \<and> line = Logged SevInfo (lit ''SIGTERM received'' @ dash @ lit ''shutting down'') []
     \<or> r_tasks d = [] \<and> (\<exists>err. x = SocksDone (Inl err) \<and> socks_bind_error (transport st) (listen_addr st) err
         \<and> line = Logged SevError (lit ''SOCKS server failed'') [ErrorField (hd err)])
     \<or> r_control d = [] \<and> (\<exists>e. x = ControlDone (Inl [Text (lit ''binding control socket '' @ socket_path st), IoCause e])
         \<and> line = Logged SevError (lit ''control socket failed'')
             [ErrorField (Text (lit ''binding control socket '' @ socket_path st))])
     \<or> (\<exists>e. x = ControlDone (Inl (Text (lit ''control accept'') # e))
         \<and> line = Logged SevError (lit ''control socket failed'') [ErrorField (Text (lit ''control accept''))])"

section \<open>Lines about the end\<close>

definition end_texts :: "rstr list" where
  "end_texts =
     [lit ''SIGTERM received'' @ dash @ lit ''shutting down'', lit ''SOCKS server failed'',
      lit ''SOCKS server exited unexpectedly'', lit ''control socket failed'', lit ''control socket exited unexpectedly'']"

fun end_line :: "event \<Rightarrow> bool" where
  "end_line (Logged sev msg fs) \<longleftrightarrow> msg \<in> set end_texts"
| "end_line (Printed s) = False"

lemma end_line_end_log: "end_line (end_log x)"
  by (simp add: end_log_def end_texts_def split: daemon_end.split sum.split)

definition end_lines :: "event list \<Rightarrow> event list" where
  "end_lines es = filter end_line es"

lemma end_lines_simps [simp]:
  "end_lines [] = []" "end_lines (es @ fs) = end_lines es @ end_lines fs"
  by (simp_all add: end_lines_def)

lemma end_texts_neq:
  "lit ''SOCKS connection closed'' \<notin> set end_texts" "lit ''SOCKS connection failed'' \<notin> set end_texts"
  "lit ''SOCKS CONNECT'' \<notin> set end_texts" "lit ''SOCKS5 server listening'' \<notin> set end_texts"
  "lit ''SOCKS accept failed; continuing'' \<notin> set end_texts" "lit ''Tor client bootstrapped'' \<notin> set end_texts"
  "lit ''control socket listening'' \<notin> set end_texts" "lit ''control connection failed'' \<notin> set end_texts"
  by (simp_all add: end_texts_def lit_def dash_def)

lemma end_texts_neq_dash:
  "lit ''Tor bootstrap failed'' @ dash @ lit ''SOCKS CONNECTs fail closed until it recovers'' \<notin> set end_texts"
  "lit ''SIGHUP'' @ dash @ lit ''live reconfigure is a follow-up (see DESIGN.md '' @ [0xA7] @ lit ''9)'' \<notin> set end_texts"
  by (simp_all add: end_texts_def lit_def dash_def)

lemma no_end_lines [simp]:
  "end_lines [listening_log a m] = []" "end_lines (accept_log r) = []" "end_lines [bootstrap_task n oc] = []"
  "end_lines [control_listening_log path] = []" "end_lines (control_log x) = []" "end_lines (sighup_task n) = []"
  "end_lines (connection_log peer res) = []" "end_lines [request_log peer host port u] = []"
  using end_texts_neq end_texts_neq_dash
  by (auto simp: end_lines_def listening_log_def accept_log_def bootstrap_task_def control_listening_log_def control_log_def
      sighup_task_def connection_log_def request_log_def filter_empty_conv split: sum.split)

lemma end_lines_phase [simp]: "end_lines (phase_lines io w res p q) = []"
  by (induction io w res p q rule: phase_lines.induct) (simp_all add: end_lines_def [of "[]"])

lemma end_lines_task [simp]: "end_lines (task_lines io w res ts ts') = []"
  using end_lines_phase [of io w res] by (auto simp: task_lines_def end_lines_def filter_concat concat_eq_Nil_conv filter_empty_conv)

section \<open>The invariant\<close>

definition end_ok :: "'b setting \<Rightarrow> ('s, 'tok, 'client, 'up, 'b) running \<Rightarrow> bool" where
  "end_ok st d \<longleftrightarrow> (r_socks d = SocksStarting \<longrightarrow> r_tasks d = []) \<and> (\<not> r_bound d \<longrightarrow> r_control d = []) \<and>
     (case r_end d of
        None \<Rightarrow> end_lines (r_events d) = []
      | Some x \<Rightarrow> \<exists>es. r_events d = es @ [end_log x] \<and> end_lines es = [] \<and> ended_so st d x (end_log x))"

lemma end_ok_step: "daemon_step st io fresh answers a d d' \<Longrightarrow> end_ok st d \<Longrightarrow> end_ok st d'"
proof (induction rule: daemon_step.induct)
  case (connection d w ts res)
  then show ?case by (auto simp: end_ok_def logged_def)
qed (auto simp: end_ok_def ended_so_def running_defs serve_vcl_def serve_def bind_result_def socks_bind_error_def
      end_log_def error_field_def)

lemma end_ok_reach: "daemon_reach st io fresh answers d0 d \<Longrightarrow> end_ok st d0 \<Longrightarrow> end_ok st d"
  by (induction rule: daemon_reach.induct) (blast intro: end_ok_step)+

text \<open>
  C8. How the daemon ends. As long as it runs its log has no line about its end. It ends only for
  four reasons, each with its own last line, the only one of its kind in the log: SIGTERM, said
  at the level info; the SOCKS listener could not be bound, in which case no client was ever
  accepted; the control socket could not be bound, in which case no command was ever accepted;
  or the control socket failed to accept; the last three said as errors with their cause. In
  each case \<open>run\<close> returns success, having logged the start of the bootstrap and these lines.
\<close>

theorem daemon_ends:
  assumes "run_setup (transport st) pf fresh drawn cfg = Inr d0" and "listen_addr st = d_listen d0"
    and "daemon_reach st io fresh answers (started d0) d"
  shows "(r_end d = None \<longrightarrow> filter end_line (r_events d) = []) \<and>
    (\<forall>x. r_end d = Some x \<longrightarrow>
       filter end_line (r_events d) = [last (r_events d)]
       \<and> (x = Sigterm \<and> last (r_events d) = Logged SevInfo (lit ''SIGTERM received'' @ dash @ lit ''shutting down'') []
          \<or> r_tasks d = [] \<and> (\<exists>err. x = SocksDone (Inl err) \<and> socks_bind_error (transport st) (socks_listen cfg) err
              \<and> last (r_events d) = Logged SevError (lit ''SOCKS server failed'') [ErrorField (hd err)])
          \<or> r_control d = [] \<and> (\<exists>e. x = ControlDone (Inl [Text (lit ''binding control socket '' @ socket_path st), IoCause e])
              \<and> last (r_events d) = Logged SevError (lit ''control socket failed'')
                  [ErrorField (Text (lit ''binding control socket '' @ socket_path st))])
          \<or> (\<exists>e. x = ControlDone (Inl (Text (lit ''control accept'') # e))
              \<and> last (r_events d) = Logged SevError (lit ''control socket failed'') [ErrorField (Text (lit ''control accept''))]))
       \<and> run (transport st) pf fresh drawn (\<lambda>_. (butlast (r_events d), x)) cfg
           = (Logged SevInfo (lit ''bootstrapping Tor client'') [StateDirField (state_dir cfg)] # r_events d, Inr ()))"
proof -
  have "end_ok st (started d0)" by (simp add: end_ok_def) (simp add: started_def)
  with assms(3) have ok: "end_ok st d" by (rule end_ok_reach)
  have listen: "listen_addr st = socks_listen cfg" using assms(1,2) by (auto elim: run_setup_Inr)
  show ?thesis
  proof (intro conjI [of "_ \<longrightarrow> _"] allI impI)
    assume "r_end d = None"
    with ok show "filter end_line (r_events d) = []" by (simp add: end_ok_def end_lines_def)
  next
    fix x
    assume "r_end d = Some x"
    with ok obtain es where es: "r_events d = es @ [end_log x]" "filter end_line es = []" "ended_so st d x (end_log x)"
      by (auto simp: end_ok_def end_lines_def)
    moreover have "run (transport st) pf fresh drawn (\<lambda>_. (butlast (r_events d), x)) cfg
        = (Logged SevInfo (lit ''bootstrapping Tor client'') [StateDirField (state_dir cfg)] # r_events d, Inr ())"
      using assms(1) es(1) by (auto simp: run_def setup_log_def elim!: run_setup_Inr)
    ultimately show "filter end_line (r_events d) = [last (r_events d)]
       \<and> (x = Sigterm \<and> last (r_events d) = Logged SevInfo (lit ''SIGTERM received'' @ dash @ lit ''shutting down'') []
          \<or> r_tasks d = [] \<and> (\<exists>err. x = SocksDone (Inl err) \<and> socks_bind_error (transport st) (socks_listen cfg) err
              \<and> last (r_events d) = Logged SevError (lit ''SOCKS server failed'') [ErrorField (hd err)])
          \<or> r_control d = [] \<and> (\<exists>e. x = ControlDone (Inl [Text (lit ''binding control socket '' @ socket_path st), IoCause e])
              \<and> last (r_events d) = Logged SevError (lit ''control socket failed'')
                  [ErrorField (Text (lit ''binding control socket '' @ socket_path st))])
          \<or> (\<exists>e. x = ControlDone (Inl (Text (lit ''control accept'') # e))
              \<and> last (r_events d) = Logged SevError (lit ''control socket failed'') [ErrorField (Text (lit ''control accept''))]))
       \<and> run (transport st) pf fresh drawn (\<lambda>_. (butlast (r_events d), x)) cfg
           = (Logged SevInfo (lit ''bootstrapping Tor client'') [StateDirField (state_dir cfg)] # r_events d, Inr ())"
      using end_line_end_log [of x] by (simp add: ended_so_def listen)
  qed
qed

text \<open>An example: the daemon is running and is terminated.\<close>

theorem daemon_ends_witness:
  "\<exists>d :: (conn, nat, unit, unit, unit) running.
     daemon_reach example_setting conn_ops id any_answer (started (example_daemon Shared)) d
     \<and> r_end d = Some Sigterm \<and> r_failed_accepts d = 1
     \<and> filter end_line (r_events d) = [Logged SevInfo (lit ''SIGTERM received'' @ dash @ lit ''shutting down'') []]"
proof -
  obtain d :: "(conn, nat, unit, unit, unit) running" where
    d: "daemon_reach example_setting conn_ops id any_answer (started (example_daemon Shared)) d" "r_end d = None"
      "r_failed_accepts d = 1"
    by (rule example_daemon_run)
  let ?d = "ended_with Sigterm d"
  have r: "daemon_reach example_setting conn_ops id any_answer (started (example_daemon Shared)) ?d"
    using d(1) daemon_step.terminated [OF d(2)] by (rule daemon_reach.later)
  have "listen_addr example_setting = d_listen (example_daemon Shared)" by (simp add: example_setting_def example_daemon_def)
  note ends = daemon_ends [OF example_setup this r]
  have "r_end ?d = Some Sigterm" "r_failed_accepts ?d = 1" by (simp_all add: ended_with_def d(3))
  with ends r show ?thesis by auto
qed

end
