(* ===== verification/Daemon_Replies.thy ===== *)
theory Daemon_Replies
  imports Daemon_Live
begin

text \<open>
  What the control socket of the running daemon answers: a specification of the reply to each
  command in terms of the connections and the readings of the status, and that every finished
  control connection was answered accordingly.
\<close>

section \<open>The specification\<close>

definition entry :: "string \<Rightarrow> json \<Rightarrow> (rstr \<times> json) list \<Rightarrow> bool" where
  "entry k v m \<longleftrightarrow> map_of m (lit k) = Some v"

text \<open>The numbers of the reply to \<open>stats\<close> are those of the connections and of the bytes of all rows.\<close>

definition true_stats :: "('s, 'tok, 'client, 'up, 'b) running \<Rightarrow> (rstr \<times> json) list \<Rightarrow> bool" where
  "true_stats d m \<longleftrightarrow> entry ''status'' (JStr (lit ''ok'')) m
     \<and> entry ''streams_active'' (json_u64 (of_nat (tasks_with is_open (r_tasks d)))) m
     \<and> entry ''connects_ok'' (json_u64 (of_nat (tasks_with is_ok (r_tasks d)))) m
     \<and> entry ''connects_failed'' (json_u64 (of_nat (tasks_with is_failed (r_tasks d)))) m
     \<and> entry ''connects_total'' (json_u64 (of_nat (tasks_with is_requested (r_tasks d)))) m
     \<and> entry ''bytes_to_upstream'' (json_u64 (sum_list (map to_upstream (heap (streams (r_world d)))))) m
     \<and> entry ''bytes_to_client'' (json_u64 (sum_list (map to_client (heap (streams (r_world d)))))) m"

text \<open>The reply to \<open>streams\<close> has the rows of the open connections, in the order of their requests.\<close>

definition true_streams :: "('s, 'tok, 'client, 'up, 'b) running \<Rightarrow> (rstr \<times> json) list \<Rightarrow> bool" where
  "true_streams d m \<longleftrightarrow> m = [(lit ''status'', JStr (lit ''ok'')),
     (lit ''streams'', JArr (map (\<lambda>a. row_value (snapshot_row (clock (r_world d)) (heap (streams (r_world d)) ! a)))
        (sorted_list_of_set (open_rows (r_tasks d)))))]"

text \<open>The reply to \<open>status\<close> has the uptime, the listener and the last reading of arti, if there is one.\<close>

definition true_status :: "'b setting \<Rightarrow> ('s, 'tok, 'client, 'up, 'b) running \<Rightarrow> (rstr \<times> json) list \<Rightarrow> bool" where
  "true_status st d m \<longleftrightarrow> entry ''status'' (JStr (lit ''ok'')) m
     \<and> entry ''uptime_secs'' (json_u64 (of_nat ((clock (r_world d) - cs_started (start_state st)) div 1000000000))) m
     \<and> entry ''socks_listen'' (JStr (socket_display (listen_addr st))) m
     \<and> (\<exists>tv. entry ''tor'' tv m \<and>
          (case rev (r_readings d) of
             [] \<Rightarrow> json_get (lit ''ready'') tv = Some (JBool False) \<and> json_get (lit ''blocked'') tv = Some JNull
           | s # _ \<Rightarrow> json_get (lit ''ready'') tv = Some (JBool (ready_for_traffic s))
               \<and> json_get (lit ''blocked'') tv = Some (json_opt_str (map_option (message st) (blocked_by s)))))"

definition true_reply ::
  "'b setting \<Rightarrow> ('s, 'tok, 'client, 'up, 'b) running \<Rightarrow> rstr + unit \<Rightarrow> rstr \<Rightarrow> (rstr \<times> json) list \<Rightarrow> bool" where
  "true_reply st d raised cmd m \<longleftrightarrow>
     (if cmd = lit ''ping'' then m = [(lit ''status'', JStr (lit ''ok'')), (lit ''pong'', JBool True)]
      else if cmd = lit ''status'' then true_status st d m
      else if cmd = lit ''stats'' then true_stats d m
      else if cmd = lit ''streams'' then true_streams d m
      else if cmd = lit ''reload'' then
        (case raised of
           Inr _ \<Rightarrow> m = [(lit ''status'', JStr (lit ''ok'')), (lit ''reload'', JStr (lit ''signalled''))]
         | Inl e \<Rightarrow> m = [(lit ''status'', JStr (lit ''error'')), (lit ''message'', JStr (lit ''raise SIGHUP: '' @ e))])
      else m = [(lit ''status'', JStr (lit ''error'')),
                (lit ''message'', JStr (lit ''unknown command '' @ str_debug (printable st) cmd))])"

section \<open>The replies of one state\<close>

lemma stats_entries:
  assumes "reachable io fresh answers w0 (r_world d, r_tasks d)" and "initial fresh w0"
    and "tasks_with is_requested (r_tasks d) \<le> 2 ^ 64"
    and "reply_entries (dispatch p raised (lit ''stats'') cs (r_world d)) = Inr m"
  shows "true_stats d m"
proof -
  let ?w = "r_world d"
  have rows: "rows_ok (?w, r_tasks d)" by (rule rows_reachable [OF assms(1,2)])
  have "registry_len (streams ?w) = tasks_with is_open (r_tasks d)"
    using rows assms(3) card_open_rows by (auto simp: rows_ok_def registry_len_live)
  moreover have "counters_ok (?w, r_tasks d)" by (rule counters_reachable [OF assms(1,2)])
  moreover have "bytes_ok (?w, r_tasks d)" by (rule bytes_reachable [OF assms(1,2)])
  moreover obtain v where v: "stats_value ?w = JObj v" using stats_is_object by blast
  moreover have "m = framed ''ok'' v" using assms(4) v by (simp add: dispatch_stats)
  moreover have "map_of v k = (if k = lit ''streams_active'' then Some (json_u64 (of_nat (registry_len (streams ?w))))
      else json_get k (metrics_value (metrics_read (totals ?w))))" for k
    using stats_get [of k ?w] v by simp
  ultimately show ?thesis
    by (simp add: true_stats_def entry_def framed_def metrics_get metrics_read_def counters_ok_def bytes_ok_def)
qed

lemma streams_entries_true:
  assumes "reachable io fresh answers w0 (r_world d, r_tasks d)" and "initial fresh w0"
    and "tasks_with is_requested (r_tasks d) \<le> 2 ^ 64"
    and "reply_entries (dispatch p raised (lit ''streams'') cs (r_world d)) = Inr m"
  shows "true_streams d m"
  using assms(4) snapshot_reachable(1) [OF assms(1-3)]
  by (simp add: streams_entries_reply streams_entries_def framed_def true_streams_def comp_def)

lemma status_entries_true:
  assumes "cs_socks_listen (start_state st) = listen_addr st" and "cs_bootstrap (start_state st) = new_bootstrap"
    and "r_cell d = poll_status (message st) new_bootstrap (r_readings d)"
    and "reply_entries (dispatch p raised (lit ''status'') (control_view st d) (r_world d)) = Inr m"
  shows "true_status st d m"
proof -
  let ?cs = "control_view st d" and ?now = "clock (r_world d)"
  obtain v where v: "status_value ?cs ?now = JObj v"
    using json_obj_is_object by (auto simp: status_value_def Let_def)
  have m: "m = framed ''ok'' v" using assms(4) v by (simp add: dispatch_status)
  have get: "map_of v k = json_get k (status_value ?cs ?now)" for k unfolding v by simp
  have "entry ''uptime_secs'' (json_u64 (of_nat ((?now - cs_started (start_state st)) div 1000000000))) m"
    "entry ''socks_listen'' (JStr (socket_display (listen_addr st))) m"
    using status_get(1,2) [of ?cs ?now] get by (simp_all add: entry_def m framed_def control_view_def assms(1))
  moreover have "\<exists>tv. entry ''tor'' tv m \<and>
      (case rev (r_readings d) of
         [] \<Rightarrow> json_get (lit ''ready'') tv = Some (JBool False) \<and> json_get (lit ''blocked'') tv = Some JNull
       | s # _ \<Rightarrow> json_get (lit ''ready'') tv = Some (JBool (ready_for_traffic s))
           \<and> json_get (lit ''blocked'') tv = Some (json_opt_str (map_option (message st) (blocked_by s))))"
  proof (cases "r_readings d" rule: rev_cases)
    case Nil
    have "bootstrap_read (cs_bootstrap ?cs)
        = \<lparr>snap_ready = False, snap_fraction = F32 (fl32 (fl32 (of_nat (unat (0 :: u32))) / 1000)), snap_blocked = None\<rparr>"
      using assms(3) Nil by (simp add: control_view_def poll_status_def bootstrap_read_def new_bootstrap_def)
    from status_get(3) [OF this, of ?now] Nil show ?thesis
      by (auto simp: entry_def m framed_def get json_opt_str_def)
  next
    case (snoc readings s)
    obtain p where "bootstrap_read (cs_bootstrap ?cs) = \<lparr>snap_ready = ready_for_traffic s,
        snap_fraction = F32 (fl32 (of_nat p / 1000)), snap_blocked = map_option (message st) (blocked_by s)\<rparr>"
      using bootstrap_read_store [of "message st" s "poll_status (message st) new_bootstrap readings"]
      by (auto simp: control_view_def assms(3) snoc poll_status_last)
    from status_get(3) [OF this, of ?now] snoc show ?thesis by (auto simp: entry_def m framed_def get)
  qed
  ultimately show ?thesis by (simp add: true_status_def entry_def m framed_def)
qed

lemma reply_true:
  assumes "reachable io fresh answers w0 (r_world d, r_tasks d)" and "initial fresh w0"
    and "tasks_with is_requested (r_tasks d) \<le> 2 ^ 64"
    and "cs_socks_listen (start_state st) = listen_addr st" and "cs_bootstrap (start_state st) = new_bootstrap"
    and "r_cell d = poll_status (message st) new_bootstrap (r_readings d)"
    and "reply_entries (dispatch (printable st) raised cmd (control_view st d) (r_world d)) = Inr m"
  shows "true_reply st d raised cmd m"
proof -
  consider "cmd = lit ''status''" | "cmd = lit ''stats''" | "cmd = lit ''streams''" | "cmd = lit ''reload''"
    | "cmd \<notin> {lit ''status'', lit ''stats'', lit ''streams'', lit ''reload''}" by blast
  then show ?thesis
  proof cases
    case 1
    from status_entries_true [OF assms(4-6) assms(7) [unfolded 1]] show ?thesis by (simp add: true_reply_def 1)
  next
    case 2
    from stats_entries [OF assms(1-3) assms(7) [unfolded 2]] show ?thesis by (simp add: true_reply_def 2)
  next
    case 3
    from streams_entries_true [OF assms(1-3) assms(7) [unfolded 3]] show ?thesis by (simp add: true_reply_def 3)
  next
    case 4
    with assms(7) show ?thesis
      by (auto simp: true_reply_def dispatch_def json_obj_def framed_def split: sum.splits)
  next
    case 5
    with assms(7) show ?thesis
      by (auto simp: true_reply_def dispatch_def json_obj_def framed_def)
  qed
qed

section \<open>Where the replies come from\<close>

text \<open>A finished control connection was served in a state of the daemon, with what its client had sent.\<close>

definition served_at ::
  "'b setting \<Rightarrow> ('s, 'tok, 'client, 'up, 'b) running \<Rightarrow> nat \<Rightarrow> io_error + u8 list \<Rightarrow> rstr + unit \<Rightarrow> error + u8 list \<Rightarrow> bool" where
  "served_at st d j input raised r \<longleftrightarrow> r_end d = None \<and> j < length (r_control d) \<and> r_control d ! j = CtlReading input \<and>
     (\<exists>send. r = control_handle (to_string st) send (printable st) raised input (control_view st d) (r_world d))"

lemma control_step:
  assumes "daemon_step st io fresh answers a d d'" and "j < length (r_control d')"
    and "r_control d' ! j = CtlDone input raised r"
  shows "j < length (r_control d) \<and> r_control d ! j = CtlDone input raised r \<or> served_at st d j input raised r"
  using assms
proof (induction rule: daemon_step.induct)
  case (control_served d i input' send raised' r')
  then show ?case by (cases "i = j") (auto simp: served_at_def logged_def)
qed (auto simp: running_defs nth_append split: if_splits)

lemma control_reach:
  assumes "daemon_reach st io fresh answers d0 d" and "r_control d0 = []"
  shows "j < length (r_control d) \<Longrightarrow> r_control d ! j = CtlDone input raised r \<Longrightarrow>
    \<exists>d1. daemon_reach st io fresh answers d0 d1 \<and> daemon_reach st io fresh answers d1 d \<and> served_at st d1 j input raised r"
  using assms(1)
proof (induction rule: daemon_reach.induct)
  case at_start
  then show ?case by (simp add: assms(2))
next
  case (later d a d')
  from control_step [OF later(2,4,5)] show ?case
  proof
    assume "j < length (r_control d) \<and> r_control d ! j = CtlDone input raised r"
    with later(3) obtain d1 where "daemon_reach st io fresh answers d0 d1"
        "daemon_reach st io fresh answers d1 d" "served_at st d1 j input raised r" by blast
    with later(2) show ?thesis by (meson daemon_reach.later)
  next
    assume "served_at st d j input raised r"
    with later(1,2) show ?thesis by (meson daemon_reach.at_start daemon_reach.later)
  qed
qed

lemma tasks_grow: "daemon_reach st io fresh answers d0 d \<Longrightarrow> length (r_tasks d0) \<le> length (r_tasks d)"
proof (induction rule: daemon_reach.induct)
  case (later d a d')
  moreover have "length (r_tasks d) \<le> length (r_tasks d')"
    using daemon_step_effect [OF later(2)] by (cases a) auto
  ultimately show ?case by simp
qed simp

lemma reply_entries_dispatch: "\<exists>m. reply_entries (dispatch p raised cmd cs w) = Inr m"
  by (cases "dispatch p raised cmd cs w") (use dispatch_object in fastforce)+


text \<open>An example: a client of the control socket sends a ping.\<close>

lemma example_ping:
  "read_line (Inr (utf8_encode (lit ''ping'' @ [10]))) = Inr (lit ''ping'' @ [10])" "trim (lit ''ping'' @ [10]) = lit ''ping''"
proof -
  have s: "list_all is_scalar (lit ''ping'')" "10 \<notin> set (lit ''ping'')" "list_all is_scalar (lit ''ping'' @ [10])"
    by (simp_all add: lit_def is_scalar_def)
  then show "read_line (Inr (utf8_encode (lit ''ping'' @ [10]))) = Inr (lit ''ping'' @ [10])"
    by (simp add: read_line_def first_line_command from_utf8_encode)
  show "trim (lit ''ping'' @ [10]) = lit ''ping''"
    by (simp add: trim_newline) (simp add: lit_def trim_def trim_start_def trim_end_def is_ws_def)
qed


end
