(* ===== verification/Spec2Isabelle.thy ===== *)
theory Spec2Isabelle
  imports Socks_Bounds Proxy_Awaits Proxy_Isolation Format_Guarantees Control_Socket Daemon_Log Daemon_End Daemon_Replies
begin

text \<open>
  TORD is a SOCKS5 proxy whose egress is Tor circuits. This development models the Rust
  program under \<open>src/src/\<close> in plain functions and step relations and proves what makes it
  correct. The file names below are relative to that directory.

  \<^bold>\<open>How the parts interact.\<close> \<open>main.rs\<close> either answers \<open>tord query\<close> (\<open>control.rs\<close>, client half,
  and \<open>format.rs\<close>) or loads the \<open>tor:\<close> section (\<open>config.rs\<close>) and runs the daemon on one
  thread: the Tor manager (\<open>tor.rs\<close>) on a runtime whose TCP provider is \<open>runtime/net.rs\<close>,
  the SOCKS5 server (\<open>socks/server.rs\<close>), the control socket (\<open>control.rs\<close>) and two tasks
  that drive and poll the bootstrap. A SOCKS connection is a task: it negotiates with the
  client, counts the attempt (\<open>metrics.rs\<close>), registers a row (\<open>streams.rs\<close>), draws an
  isolation token, asks arti for a stream, and copies bytes through the metering adapter
  (\<open>socks/metered.rs\<close>). The control socket reads the counters, the rows and the bootstrap
  status. Tasks interleave only at awaits.

  \<^bold>\<open>Ground.\<close>
  \<^item> \<open>Prelude\<close>: machine words, Rust strings as code points, error chains, programs with
    state and the question mark, wrapping counters.
  \<^item> \<open>Rust_Text\<close>: UTF-8 as \<open>from_utf8\<close> accepts it (with its round trip), numerals,
    trimming and padding. \<open>Rust_Float\<close>: \<open>f32\<close> and \<open>f64\<close> values as rationals, rounded to the
    nearest, ties to even.
  \<^item> \<open>Net_Addr\<close>: IP and socket addresses and their texts, read back. \<open>Net_Parse\<close>: parsing of
    IPv4 socket addresses, the form of the default listener. \<open>Hash_Map\<close>: the contract of \<open>HashMap\<close> (locale
    \<open>hash_map\<close>) and an implementation of it.
  \<^item> \<open>Async_Stream\<close>: the operations of an async byte stream with their contract (locales
    \<open>client_stream\<close> and \<open>roomy_stream\<close>) and a scripted connection that satisfies it.
  \<^item> \<open>Logging\<close>: the lines the program prints and logs, with severity, message and fields, and the
    filter of the subscriber. \<open>Json\<close>: JSON values with ordered objects.

  \<^bold>\<open>Components.\<close> A record models the state of a struct, a definition each of its methods.
  \<^item> \<open>Config\<close> (\<open>config.rs\<close>): the derived deserialiser field by field, the defaults, \<open>load\<close>;
    every field has the value of its key or its default, whatever other keys there are.
    The isolation policies are ordered by strictness.
  \<^item> \<open>Metrics\<close> (\<open>metrics.rs\<close>), \<open>Streams\<close> (\<open>streams.rs\<close>): counters; the registry with its
    shared entries on an explicit heap. The registry refines the set of live connections,
    and a snapshot lists exactly them.
  \<^item> \<open>Metered\<close> (\<open>socks/metered.rs\<close>): the poll methods; they change nothing of the stream and
    count exactly the bytes that passed.
  \<^item> \<open>Tor\<close>, \<open>Bootstrap\<close> (\<open>tor.rs\<close>): tokens, client, connect, bootstrap; the status cell. A
    token is shared exactly when the policy allows it; the stored progress stays in range.
  \<^item> \<open>Socks_Server\<close> (\<open>socks/server.rs\<close>): \<open>handle\<close> in the pieces between its effects on shared
    state, logging, the accept loops. \<open>Socks_Handshake\<close>, \<open>Socks_Safety\<close>: the negotiation
    accepts exactly the well-formed byte sequences and sends nothing but legal answers;
    \<open>Socks_Bounds\<close>: it asks for at most 1032 bytes of any client. \<open>Socks_Awaits\<close>: the same
    negotiation suspended at each of its awaits, as a tree (\<open>talk_handshake\<close>) that gives
    \<open>handshake\<close> when it is run to its end, and how many awaits it has.
    \<open>Socks_Connection\<close>: the outcomes of a connection and failing closed. \<open>Socks_Texts\<close>:
    destinations and log levels; \<open>Socks_Log\<close>: at the default level the log of a connection
    reveals neither destination nor username.
  \<^item> \<open>Control\<close> (\<open>control.rs\<close>), \<open>Format\<close> (\<open>format.rs\<close>), \<open>Net_Provider\<close> (\<open>runtime/net.rs\<close>,
    \<open>runtime/mod.rs\<close>), \<open>Daemon\<close> (\<open>main.rs\<close>): every function of these files. What is proved of
    them is in \<open>Control_Guarantees\<close>, \<open>Control_Socket\<close> (the path of the socket, against a contract of
    the file system, locale \<open>socket_directory\<close>), \<open>Format_Guarantees\<close>, \<open>Net_Provider\<close> and
    \<open>Daemon_Guarantees\<close>.

  \<^bold>\<open>Composition.\<close> \<open>Proxy_System\<close> runs any number of connections as tasks over the shared
  state (\<open>sys_step\<close>, one rule for each segment between two awaits, the negotiation being one),
  with invariants by rule induction over \<open>reachable\<close>; \<open>Proxy_Guarantees\<close> states them:
  accounting, the rows, the byte totals, isolation, failing closed on the destination the client
  itself named, and that the sequential \<open>handle\<close> is one of the interleavings. \<open>Proxy_Isolation\<close>
  has the contents of the map of tokens.

  \<open>Proxy_Awaits\<close> is the same system at the grain of single awaits (\<open>await_step\<close>): a task is in
  front of a read or a write of its negotiation, of arti, of the write of its reply, or in its
  copy, and gets ahead only when that await can return (the parameter \<open>ready\<close>, of which nothing
  is assumed: a client may be silent and a copy may never end). \<open>sys_step\<close> is an abstraction of
  it, so the guarantees hold there too; a connection takes at most sixteen segments; and in a fair
  run it ends or stays for ever at an await of its own that cannot return.

  \<open>Daemon_Guarantees\<close> joins the ends: a daemon set up from a configuration starts that system
  with its policy, runs only if enabled, and what \<open>tord query\<close> prints is the state of the system.
  \<open>Daemon_System\<close> is the whole running daemon as one step relation (\<open>daemon_step\<close>, each step
  labelled with the task that takes it): the connections, the SOCKS accept loop with its back-off
  of 50 ms, the control socket and its connections, the polling of the status every two seconds,
  the bootstrap and SIGHUP tasks, and the end of the \<open>select!\<close>. \<open>Daemon_Live\<close> proves that its
  connections are the proxy system and which tasks may change what, and that its loops are paced;
  \<open>Daemon_Replies\<close> specifies the reply to each command (\<open>true_reply\<close>) and proves that each
  finished control connection got it; \<open>Daemon_End\<close> has the reasons of its end with their lines;
  \<open>Daemon_Log\<close> what its log reveals over all interleavings. All hold for both builds: \<open>vcl\<close> and
  \<open>kernel-sockets\<close> differ in the provider, the setup before it and the error of a failed bind
  (type \<open>build\<close>). The failed accepts, the readings of the status and what a control connection
  was sent are kept in fields that the program does not have.

  \<^bold>\<open>Bounds.\<close> No fuel is used: all loops are structural or have a measure, and servers that
  run forever are taken over the accepts so far; what may go on for ever is a step relation. Counters are words and statements about
  them hold modulo \<open>2\<^sup>6\<^sup>4\<close>. Row ids are words too, so statements about rows assume at most
  \<open>2\<^sup>6\<^sup>4\<close> registrations; the exact rendering of byte counts is stated below \<open>2\<^sup>5\<^sup>3\<close>, where
  the conversion to \<open>f64\<close> is exact.

  \<^bold>\<open>Parameters.\<close> arti (its client, streams, status and tokens, of which only that they
  differ is assumed), VCL, the tokio streams and sockets, the YAML reader, the JSON codec,
  which non-ASCII characters \<open>Debug\<close> escapes, signals, the clock, and the file system.
  Paths are taken to be text.

  \<^bold>\<open>Not modelled.\<close> The splitting of the command line into arguments (\<open>clap\<close>), how the subscriber
  formats a line (its filter is a parameter where the environment sets one), the order in which
  tokio runs tasks that are ready (the step relations allow every one; \<open>connection_waits\<close> is
  stated for runs that do not pass over a task for ever), poisoning of the mutexes (no critical section panics), the uninhabited
  listener type with its unreachable methods, and the unit tests. The log lines of arti are not
  those of the program: \<open>Socks_Log\<close> says nothing about them.
\<close>

end
